theory Spec2Isabelle
  imports Complex_Main
begin

section \<open>Stride-based stimulation (planner/stimulation.py)\<close>

text \<open>
  Python exceptions are values. Only the exceptions that the modelled code can raise
  are listed.
\<close>

datatype error = RuntimeError | IndexError | ValueError | KeyError | FileNotFoundError

text \<open>
  \<^verbatim>\<open>Side\<close> and \<^verbatim>\<open>DataAnalyser.percentage_of_stride\<close> live in
  \<^verbatim>\<open>data_analyser.py\<close>, which this development does not cover. The analyser is
  therefore a parameter \<open>pos\<close> of the tick function: it maps the current time, the data
  snapshot (of an arbitrary type \<open>'d\<close>) and a side to a stride position.
\<close>

datatype Side = LEFT | RIGHT

text \<open>
  \<^verbatim>\<open>StrideBasedStimulation\<close> has two attributes: the condition function and the list
  \<^verbatim>\<open>_are_stimulating\<close>, one boolean per channel. The constructor leaves the list empty.
\<close>

record StrideBasedStimulation =
  condition :: "real \<Rightarrow> real \<Rightarrow> bool list"
  are_stimulating :: "bool list"

definition StrideBasedStimulation_init :: "(real \<Rightarrow> real \<Rightarrow> bool list) \<Rightarrow> StrideBasedStimulation" where
  "StrideBasedStimulation_init condition_function =
     \<lparr>condition = condition_function, are_stimulating = []\<rparr>"

text \<open>
  The lazy sizing at the top of \<^verbatim>\<open>stimulation_duration\<close>:
  \<^verbatim>\<open>if not self._are_stimulating: self._are_stimulating = [False] * len(should)\<close>.
  An empty list is falsy, so the test is on emptiness, not on a separate flag.
\<close>

definition size_are_stimulating :: "bool list \<Rightarrow> bool list \<Rightarrow> bool list" where
  "size_are_stimulating st should =
     (if st = [] then replicate (length should) False else st)"

text \<open>
  The \<^verbatim>\<open>for i in range(len(should_stimulate_channels))\<close> loop, from index \<open>i\<close> on, with
  the list \<open>st\<close> mutated in place and the commands collected in \<open>out\<close>. The commands are
  what the source appends: \<open>Some 0\<close> for \<^verbatim>\<open>0\<close>, \<open>Some (- 1)\<close> for \<^verbatim>\<open>-1\<close> and
  \<open>None\<close> for \<^verbatim>\<open>None\<close>. Reading \<^verbatim>\<open>self._are_stimulating[i]\<close> beyond the end of the list
  raises \<^verbatim>\<open>IndexError\<close>; the exception leaves the list as mutated so far, so the state
  is returned next to the outcome.
\<close>

function for_channels ::
  "bool list \<Rightarrow> nat \<Rightarrow> bool list \<Rightarrow> int option list \<Rightarrow> bool list \<times> (error + int option list)"
where
  "for_channels should i st out =
     (if i < length should then
        (if i < length st then
           (let should_stimulate = should ! i; is_stimulating = st ! i in
            if should_stimulate \<and> \<not> is_stimulating then
              for_channels should (Suc i) (st[i := True]) (out @ [Some 0])
            else if should_stimulate \<and> is_stimulating then
              for_channels should (Suc i) st (out @ [None])
            else if \<not> should_stimulate \<and> is_stimulating then
              for_channels should (Suc i) (st[i := False]) (out @ [Some (- 1)])
            else if \<not> should_stimulate \<and> \<not> is_stimulating then
              for_channels should (Suc i) st (out @ [None])
            else (st, Inl ValueError))
         else (st, Inl IndexError))
      else (st, Inr out))"
  by pat_completeness auto
termination
  by (relation "measure (\<lambda>(should, i, st, out). length should - i)") auto

declare for_channels.simps [simp del]

text \<open>
  The body of \<^verbatim>\<open>stimulation_duration\<close> after the predicate has been evaluated:
  stored list in, predicate output in, stored list and outcome out.
\<close>

definition decide :: "bool list \<Rightarrow> bool list \<Rightarrow> bool list \<times> (error + int option list)" where
  "decide st should = for_channels should 0 (size_are_stimulating st should) []"

definition stimulation_duration ::
  "(real \<Rightarrow> 'd \<Rightarrow> Side \<Rightarrow> real) \<Rightarrow> StrideBasedStimulation \<Rightarrow> real \<Rightarrow> 'd
     \<Rightarrow> StrideBasedStimulation \<times> (error + int option list)"
where
  "stimulation_duration pos self current_time snapshot =
     (let stride_left = pos current_time snapshot LEFT;
          stride_right = pos current_time snapshot RIGHT;
          should_stimulate_channels = condition self stride_left stride_right;
          (st, res) = decide (are_stimulating self) should_stimulate_channels
      in (self\<lparr>are_stimulating := st\<rparr>, res))"


text \<open>
  The four live branches of the loop body in one place: the command appended for a
  channel that should (or should not) stimulate and was (or was not) stimulating.
  Lemma \<open>for_channels_step\<close> below shows that the loop appends exactly this.
\<close>

definition command :: "bool \<Rightarrow> bool \<Rightarrow> int option" where
  "command want was =
     (if want \<and> \<not> was then Some 0 else if \<not> want \<and> was then Some (- 1) else None)"

text \<open>Successive ticks of one engine, with the outcome of each.\<close>

fun ticks ::
  "(real \<Rightarrow> 'd \<Rightarrow> Side \<Rightarrow> real) \<Rightarrow> StrideBasedStimulation \<Rightarrow> (real \<times> 'd) list
     \<Rightarrow> StrideBasedStimulation \<times> (error + int option list) list"
where
  "ticks pos self [] = (self, [])"
| "ticks pos self ((t, d) # rest) =
     (let (self', res) = stimulation_duration pos self t d;
          (self'', ress) = ticks pos self' rest
      in (self'', res # ress))"

text \<open>
  Concrete collaborators for the examples: an analyser whose stride position is the
  time itself, a predicate for one channel, and a predicate whose output changes length
  with the stride position.
\<close>

definition example_pos :: "real \<Rightarrow> unit \<Rightarrow> Side \<Rightarrow> real" where
  "example_pos t d side = t"


definition resizing :: "real \<Rightarrow> real \<Rightarrow> bool list" where
  "resizing l r =
     (if l < 1 / 4 then [False, False] else if l < 1 / 2 then [True] else [True, True, False])"


section \<open>The stimulation record (rehastim/data.py)\<close>

subsection \<open>Channels and the object store\<close>

text \<open>
  A \<^verbatim>\<open>Channel\<close> is a mutable Python object with two attributes. The tuples kept in the
  log hold references to such objects, so the objects live in a store and the log holds
  addresses. The store is the list of all objects allocated so far; the address of an
  object is its position, and a new object is appended. Python has no dangling
  reference: every address held by a log is below the length of the store.
\<close>

record Channel =
  channel_index :: int
  amplitude :: real

type_synonym ref = nat
type_synonym store = "Channel list"

text \<open>
  What a caller hands to \<^verbatim>\<open>add\<close>: a pyScienceMode channel, of which only
  \<^verbatim>\<open>get_no_channel()\<close> and \<^verbatim>\<open>get_amplitude()\<close> are read, or a \<^verbatim>\<open>Channel\<close> of the
  caller, which is only read by \<^verbatim>\<open>deepcopy\<close> and therefore passed by its current value.
\<close>

datatype channel_arg = PyScienceModeChannel int real | OwnChannel Channel

fun from_pysciencemode :: "int \<Rightarrow> real \<Rightarrow> Channel" where
  "from_pysciencemode no_channel amp = \<lparr>channel_index = no_channel, amplitude = amp\<rparr>"

fun new_channel :: "channel_arg \<Rightarrow> Channel" where
  "new_channel (PyScienceModeChannel no_channel amp) = from_pysciencemode no_channel amp"
| "new_channel (OwnChannel c) = c"

text \<open>Assigning to the attribute \<^verbatim>\<open>amplitude\<close> of the object at address \<open>r\<close>.\<close>

definition set_amplitude :: "store \<Rightarrow> ref \<Rightarrow> real \<Rightarrow> store" where
  "set_amplitude h r a = h[r := (h ! r)\<lparr>amplitude := a\<rparr>]"

subsection \<open>Time\<close>

text \<open>
  A \<^verbatim>\<open>datetime\<close> has a resolution of one microsecond: it is an integer number of
  microseconds, and so is the difference of two of them. \<^verbatim>\<open>total_seconds()\<close> divides
  by \<open>10\<^sup>6\<close>; the float it returns is taken as a real number. Every call of
  \<^verbatim>\<open>datetime.now()\<close> is a parameter \<open>now\<close> of the function that makes it.
\<close>

type_synonym datetime = int

definition total_seconds :: "int \<Rightarrow> real" where
  "total_seconds delta = real_of_int delta / 1000000"

subsection \<open>The log\<close>

text \<open>
  An element of \<^verbatim>\<open>_data\<close> is the tuple (time, duration or \<^verbatim>\<open>None\<close>, tuple of channels).
\<close>

type_synonym entry = "datetime \<times> real option \<times> ref list"

record RehastimData =
  t0 :: datetime
  data :: "entry list"

definition RehastimData_init :: "datetime \<Rightarrow> RehastimData" where
  "RehastimData_init now = \<lparr>t0 = now, data = []\<rparr>"

definition has_data :: "RehastimData \<Rightarrow> bool" where
  "has_data self = (data self \<noteq> [])"

definition set_t0 :: "datetime \<Rightarrow> datetime option \<Rightarrow> RehastimData \<Rightarrow> RehastimData" where
  "set_t0 now new_t0 self = self\<lparr>t0 := (case new_t0 of Some t \<Rightarrow> t | None \<Rightarrow> now)\<rparr>"

text \<open>
  \<^verbatim>\<open>add\<close>. With \<^verbatim>\<open>channels is None\<close> the new entry takes \<^verbatim>\<open>self._data[-1][2]\<close>, the
  very tuple of the last entry: the same addresses, and no new object. Otherwise every
  channel is converted or deep-copied into a fresh object.
\<close>

definition add ::
  "datetime \<Rightarrow> real option \<Rightarrow> channel_arg list option \<Rightarrow> store \<times> RehastimData
     \<Rightarrow> error + store \<times> RehastimData"
where
  "add now duration channels s =
     (let (h, self) = s in
      case channels of
        None \<Rightarrow>
          if \<not> has_data self then Inl RuntimeError
          else
            (let chans = snd (snd (last (data self)))
             in Inr (h, self\<lparr>data := data self @ [(now, duration, chans)]\<rparr>))
      | Some cs \<Rightarrow>
          (let chans = [length h ..< length h + length cs]
           in Inr (h @ map new_channel cs,
                   self\<lparr>data := data self @ [(now, duration, chans)]\<rparr>)))"

text \<open>
  \<^verbatim>\<open>stop_undefined_stimulation_duration\<close>. The second component is what the call sends
  to \<^verbatim>\<open>logger.warning\<close>.
\<close>

definition stop_undefined_stimulation_duration ::
  "datetime \<Rightarrow> RehastimData \<Rightarrow> RehastimData \<times> string list"
where
  "stop_undefined_stimulation_duration now self =
     (if data self = [] then (self, [''No data to stop''])
      else
        (case last (data self) of
           (stimulation_started_at, duration, channels) \<Rightarrow>
             if duration \<noteq> None then (self, [])
             else
               (let stimulation_lasted = total_seconds (now - stimulation_started_at)
                in (self\<lparr>data := (data self)[length (data self) - 1 :=
                            (stimulation_started_at, Some stimulation_lasted, channels)]\<rparr>,
                    []))))"

subsection \<open>Indexing\<close>

text \<open>
  \<^verbatim>\<open>sample_block\<close> takes an \<^verbatim>\<open>int\<close> or a \<^verbatim>\<open>slice\<close> and hands it to the list. For an
  integer, a negative index counts from the end and an index out of range raises
  \<^verbatim>\<open>IndexError\<close>. For a slice the list clamps the bounds as \<^verbatim>\<open>slice.indices\<close> does
  (a zero step raises \<^verbatim>\<open>ValueError\<close>) and returns the elements at
  \<open>start, start + step, \<dots>\<close>.
\<close>

datatype index = Index int | Slice "int option" "int option" "int option"

definition slice_indices ::
  "nat \<Rightarrow> int option \<Rightarrow> int option \<Rightarrow> int option \<Rightarrow> error + int \<times> int \<times> int"
where
  "slice_indices n start stop step =
     (let st = (case step of None \<Rightarrow> 1 | Some s \<Rightarrow> s); len = int n in
      if st = 0 then Inl ValueError
      else
        (let lower = (if st < 0 then - 1 else 0);
             upper = (if st < 0 then len - 1 else len);
             a = (case start of
                    None \<Rightarrow> (if st < 0 then upper else lower)
                  | Some s \<Rightarrow> (if s < 0 then max (s + len) lower else min s upper));
             b = (case stop of
                    None \<Rightarrow> (if st < 0 then lower else upper)
                  | Some s \<Rightarrow> (if s < 0 then max (s + len) lower else min s upper))
         in Inr (a, b, st)))"

definition slice_length :: "int \<Rightarrow> int \<Rightarrow> int \<Rightarrow> nat" where
  "slice_length a b st =
     (if st < 0 then (if b < a then nat ((a - b - 1) div (- st) + 1) else 0)
      else (if a < b then nat ((b - a - 1) div st + 1) else 0))"

datatype block = Block entry | Blocks "entry list"

definition getitem :: "entry list \<Rightarrow> index \<Rightarrow> error + block" where
  "getitem xs idx =
     (case idx of
        Index i \<Rightarrow>
          (let n = int (length xs); j = (if i < 0 then i + n else i)
           in if 0 \<le> j \<and> j < n then Inr (Block (xs ! nat j)) else Inl IndexError)
      | Slice start stop step \<Rightarrow>
          (case slice_indices (length xs) start stop step of
             Inl e \<Rightarrow> Inl e
           | Inr (a, b, st) \<Rightarrow>
               Inr (Blocks (map (\<lambda>k. xs ! nat (a + int k * st)) [0..<slice_length a b st]))))"

text \<open>\<^verbatim>\<open>sample_block\<close>: \<open>Inr None\<close> is the Python value \<^verbatim>\<open>None\<close>.\<close>

definition sample_block :: "RehastimData \<Rightarrow> index \<Rightarrow> error + block option" where
  "sample_block self idx =
     (if data self = [] then Inr None
      else (case getitem (data self) idx of Inl e \<Rightarrow> Inl e | Inr b \<Rightarrow> Inr (Some b)))"

subsection \<open>Array views\<close>

text \<open>
  A numpy array is its shape and its elements in row-major order. \<^verbatim>\<open>np.array\<close> of a flat
  list is one-dimensional. \<^verbatim>\<open>np.array\<close> of a list of lists is one-dimensional and empty
  for the empty list, two-dimensional when the rows have one length, and refused
  (\<^verbatim>\<open>ValueError\<close>, inhomogeneous shape) otherwise. \<^verbatim>\<open>.T\<close> swaps the two axes of a
  two-dimensional array and leaves a one-dimensional array as it is.
\<close>

record ndarray =
  shape :: "nat list"
  elems :: "real list"

definition np_array :: "real list \<Rightarrow> ndarray" where
  "np_array xs = \<lparr>shape = [length xs], elems = xs\<rparr>"

definition np_array2 :: "real list list \<Rightarrow> error + ndarray" where
  "np_array2 rows =
     (if rows = [] then Inr \<lparr>shape = [0], elems = []\<rparr>
      else if list_all (\<lambda>r. length r = length (hd rows)) rows
      then Inr \<lparr>shape = [length rows, length (hd rows)], elems = concat rows\<rparr>
      else Inl ValueError)"

definition np_T :: "ndarray \<Rightarrow> ndarray" where
  "np_T a =
     (case shape a of
        [n, m] \<Rightarrow>
          \<lparr>shape = [m, n],
           elems = concat (map (\<lambda>j. map (\<lambda>i. elems a ! (i * m + j)) [0..<n]) [0..<m])\<rparr>
      | _ \<Rightarrow> a)"

text \<open>The list comprehensions keep the entries whose duration is not \<^verbatim>\<open>None\<close>.\<close>

definition closed_entries :: "entry list \<Rightarrow> entry list" where
  "closed_entries xs = filter (\<lambda>(t, duration, channels). duration \<noteq> None) xs"

definition time :: "RehastimData \<Rightarrow> ndarray" where
  "time self =
     (if data self = [] then np_array []
      else np_array (map (\<lambda>(t, duration, channels). total_seconds (t - t0 self))
                       (closed_entries (data self))))"

definition duration_as_array :: "RehastimData \<Rightarrow> ndarray" where
  "duration_as_array self =
     (if data self = [] then \<lparr>shape = [1, 0], elems = []\<rparr>
      else np_array (map (\<lambda>(t, duration, channels). the duration)
                       (closed_entries (data self))))"

definition amplitude_as_array :: "store \<Rightarrow> RehastimData \<Rightarrow> error + ndarray" where
  "amplitude_as_array h self =
     (if data self = [] then Inr \<lparr>shape = [1, 0], elems = []\<rparr>
      else
        (case np_array2 (map (\<lambda>(t, duration, channels). map (\<lambda>r. amplitude (h ! r)) channels)
                           (closed_entries (data self))) of
           Inl e \<Rightarrow> Inl e
         | Inr a \<Rightarrow> Inr (np_T a)))"

subsection \<open>Serialisation\<close>

text \<open>
  \<^verbatim>\<open>serialized\<close> builds the dictionary \<^verbatim>\<open>{"t0": self._t0, "data": self._data}\<close>.
  \<^verbatim>\<open>deserialize\<close> reads those two keys, and a missing key raises \<^verbatim>\<open>KeyError\<close>. The
  dictionary is modelled at the two keys that are read, each absent or holding a value
  of the kind the class stores there.
\<close>

record pydict =
  item_t0 :: "datetime option"
  item_data :: "entry list option"

definition serialized :: "RehastimData \<Rightarrow> pydict" where
  "serialized self = \<lparr>item_t0 = Some (t0 self), item_data = Some (data self)\<rparr>"

definition deserialize :: "datetime \<Rightarrow> pydict \<Rightarrow> error + RehastimData" where
  "deserialize now d =
     (let out = RehastimData_init now in
      case item_t0 d of
        None \<Rightarrow> Inl KeyError
      | Some t \<Rightarrow>
          (case item_data d of
             None \<Rightarrow> Inl KeyError
           | Some xs \<Rightarrow> Inr (out\<lparr>t0 := t, data := xs\<rparr>)))"

text \<open>
  \<^verbatim>\<open>save\<close> and \<^verbatim>\<open>load\<close> go through \<^verbatim>\<open>pickle\<close> and a file. A pickle is a snapshot by
  value of the objects it was made from: here the store at the time of the dump next to
  the dictionary. Unpickling rebuilds the snapshot out of new objects, so the loaded
  addresses are the pickled ones moved behind the objects that exist at the time of the
  load; objects shared in the pickle stay shared. The file system maps a path to the
  pickle written there, and opening a missing file for reading raises
  \<^verbatim>\<open>FileNotFoundError\<close>.
\<close>

type_synonym pickle = "store \<times> pydict"
type_synonym files = "string \<rightharpoonup> pickle"

definition pickle_dump :: "store \<Rightarrow> pydict \<Rightarrow> pickle" where
  "pickle_dump h d = (h, d)"

definition relocate :: "nat \<Rightarrow> entry \<Rightarrow> entry" where
  "relocate k e = (case e of (t, duration, channels) \<Rightarrow> (t, duration, map (\<lambda>r. k + r) channels))"

definition pickle_load :: "store \<Rightarrow> pickle \<Rightarrow> store \<times> pydict" where
  "pickle_load h p =
     (case p of (hp, d) \<Rightarrow>
        (h @ hp, d\<lparr>item_data := map_option (map (relocate (length h))) (item_data d)\<rparr>))"

definition save :: "string \<Rightarrow> store \<times> RehastimData \<Rightarrow> files \<Rightarrow> files" where
  "save path s fs = (case s of (h, self) \<Rightarrow> fs(path \<mapsto> pickle_dump h (serialized self)))"

definition load :: "datetime \<Rightarrow> string \<Rightarrow> store \<Rightarrow> files \<Rightarrow> error + store \<times> RehastimData" where
  "load now path h fs =
     (case fs path of
        None \<Rightarrow> Inl FileNotFoundError
      | Some p \<Rightarrow>
          (case pickle_load h p of (h', d) \<Rightarrow>
             (case deserialize now d of Inl e \<Rightarrow> Inl e | Inr out \<Rightarrow> Inr (h', out))))"

text \<open>
  What a reader sees of a log: the origin and, for every entry, its time, its duration
  and the attribute values of its channels, in order.
\<close>

definition contents :: "store \<Rightarrow> RehastimData \<Rightarrow> datetime \<times> (datetime \<times> real option \<times> Channel list) list" where
  "contents h self =
     (t0 self, map (\<lambda>(t, duration, channels). (t, duration, map (\<lambda>r. h ! r) channels)) (data self))"

subsection \<open>Sequences of calls\<close>

text \<open>
  A session is a sequence of calls of \<^verbatim>\<open>add\<close> and
  \<^verbatim>\<open>stop_undefined_stimulation_duration\<close>, each with the clock reading it gets. A call
  of \<^verbatim>\<open>add\<close> that raises changes nothing, and the session goes on.
\<close>

datatype call = Add datetime "real option" "channel_arg list option" | StopUndefined datetime

fun apply_call :: "store \<times> RehastimData \<Rightarrow> call \<Rightarrow> store \<times> RehastimData" where
  "apply_call s (Add now duration channels) =
     (case add now duration channels s of Inl e \<Rightarrow> s | Inr s' \<Rightarrow> s')"
| "apply_call s (StopUndefined now) =
     (fst s, fst (stop_undefined_stimulation_duration now (snd s)))"

definition run :: "store \<times> RehastimData \<Rightarrow> call list \<Rightarrow> store \<times> RehastimData" where
  "run s calls = foldl apply_call s calls"

definition is_open :: "entry \<Rightarrow> bool" where
  "is_open e = (fst (snd e) = None)"

definition last_is_open :: "RehastimData \<Rightarrow> bool" where
  "last_is_open self = (data self \<noteq> [] \<and> is_open (last (data self)))"

text \<open>
  The discipline the docstring of \<^verbatim>\<open>add\<close> asks of the user: an entry added with
  duration \<^verbatim>\<open>None\<close> is stopped before the next entry is added.
\<close>

fun stops_before_adding :: "store \<times> RehastimData \<Rightarrow> call list \<Rightarrow> bool" where
  "stops_before_adding s [] = True"
| "stops_before_adding s (c # cs) =
     ((case c of Add now duration channels \<Rightarrow> \<not> last_is_open (snd s) | StopUndefined now \<Rightarrow> True)
      \<and> stops_before_adding (apply_call s c) cs)"

subsection \<open>An example log\<close>

text \<open>
  Two entries with durations 0.5 and 0.3 and two channels each, followed by a pending
  entry, and the store their channels live in.
\<close>

definition example_store :: store where
  "example_store =
     [\<lparr>channel_index = 1, amplitude = 10\<rparr>, \<lparr>channel_index = 2, amplitude = 20\<rparr>,
      \<lparr>channel_index = 1, amplitude = 30\<rparr>, \<lparr>channel_index = 2, amplitude = 40\<rparr>]"

definition example_log :: RehastimData where
  "example_log =
     \<lparr>t0 = 0,
      data = [(1000000, Some (1 / 2), [0, 1]), (2000000, Some (3 / 10), [2, 3]), (3000000, None, [2, 3])]\<rparr>"


section \<open>Properties of the stride-based engine\<close>

lemma for_channels_step:
  "for_channels should i st out =
     (if i < length should then
        if i < length st then
          for_channels should (Suc i) (st[i := should ! i]) (out @ [command (should ! i) (st ! i)])
        else (st, Inl IndexError)
      else (st, Inr out))"
proof -
  have same: "b = st ! i \<Longrightarrow> st[i := b] = st" for b
    by simp
  show ?thesis
    by (subst for_channels.simps) (simp add: Let_def command_def same)
qed


lemma for_channels_length:
  "length (fst (for_channels should i st out)) = length st"
proof (induction "length should - i" arbitrary: i st out)
  case 0
  then show ?case by (subst for_channels_step) simp
next
  case (Suc n)
  then have "n = length should - Suc i" by simp
  from Suc(1)[OF this] show ?case by (subst for_channels_step) simp
qed

lemma for_channels_state:
  "k < length st \<Longrightarrow>
   fst (for_channels should i st out) ! k = (if i \<le> k \<and> k < length should then should ! k else st ! k)"
proof (induction "length should - i" arbitrary: i st out)
  case 0
  then show ?case by (subst for_channels_step) auto
next
  case (Suc n)
  then have n: "n = length should - Suc i" and i: "i < length should" by simp_all
  show ?case
  proof (cases "i < length st")
    case False
    with Suc.prems show ?thesis by (subst for_channels_step) simp
  next
    case True
    have "fst (for_channels should (Suc i) (st[i := should ! i]) (out @ [command (should ! i) (st ! i)])) ! k
        = (if Suc i \<le> k \<and> k < length should then should ! k else st[i := should ! i] ! k)"
      using Suc.prems by (intro Suc(1)[OF n]) simp
    also have "\<dots> = (if i \<le> k \<and> k < length should then should ! k else st ! k)"
      using True i by (cases "k = i") (auto simp: nth_list_update)
    finally show ?thesis using True i by (subst for_channels_step) simp
  qed
qed

lemma for_channels_out:
  "length should \<le> length st \<Longrightarrow>
   snd (for_channels should i st out) =
     Inr (out @ map (\<lambda>k. command (should ! k) (st ! k)) [i..<length should])"
proof (induction "length should - i" arbitrary: i st out)
  case 0
  then show ?case by (subst for_channels_step) simp
next
  case (Suc n)
  then have n: "n = length should - Suc i" and i: "i < length should" by simp_all
  have upt: "[i..<length should] = i # [Suc i..<length should]"
    using i by (simp add: upt_conv_Cons)
  have "snd (for_channels should (Suc i) (st[i := should ! i]) (out @ [command (should ! i) (st ! i)]))
      = Inr ((out @ [command (should ! i) (st ! i)]) @
          map (\<lambda>k. command (should ! k) (st[i := should ! i] ! k)) [Suc i..<length should])"
    using Suc.prems by (intro Suc(1)[OF n]) simp
  then show ?case using i Suc.prems
    by (subst for_channels_step) (simp add: upt)
qed

lemma for_channels_IndexError:
  "length st < length should \<Longrightarrow> i \<le> length st \<Longrightarrow>
   snd (for_channels should i st out) = Inl IndexError"
proof (induction "length st - i" arbitrary: i st out)
  case 0
  then show ?case by (subst for_channels_step) simp
next
  case (Suc n)
  then have "n = length (st[i := should ! i]) - Suc i" by simp
  from Suc(1)[OF this] Suc.prems Suc(2) show ?case
    by (subst for_channels_step) simp
qed


lemma length_size_are_stimulating:
  "length (size_are_stimulating st should) = (if st = [] then length should else length st)"
  by (simp add: size_are_stimulating_def)


lemma decide_length:
  "length (fst (decide st should)) = length (size_are_stimulating st should)"
  by (simp add: decide_def for_channels_length)

lemma decide_state:
  "k < length (size_are_stimulating st should) \<Longrightarrow> k < length should \<Longrightarrow>
   fst (decide st should) ! k = should ! k"
  by (simp add: decide_def for_channels_state)

lemma decide_state_rest:
  "k < length (size_are_stimulating st should) \<Longrightarrow> length should \<le> k \<Longrightarrow>
   fst (decide st should) ! k = size_are_stimulating st should ! k"
  by (simp add: decide_def for_channels_state)

lemma decide_out:
  "length should \<le> length (size_are_stimulating st should) \<Longrightarrow>
   snd (decide st should) =
     Inr (map (\<lambda>k. command (should ! k) (size_are_stimulating st should ! k)) [0..<length should])"
  by (simp add: decide_def for_channels_out)

lemma decide_IndexError:
  "length (size_are_stimulating st should) < length should \<Longrightarrow>
   snd (decide st should) = Inl IndexError"
  by (simp add: decide_def for_channels_IndexError)

lemma decide_first:
  "decide [] should = (should, Inr (map (\<lambda>b. if b then Some 0 else None) should))"
proof -
  let ?was = "size_are_stimulating [] should"
  have len: "length ?was = length should"
    by (simp add: size_are_stimulating_def)
  have "fst (decide [] should) = should"
    by (rule nth_equalityI) (simp_all add: decide_length len decide_state)
  moreover have "map (\<lambda>k. command (should ! k) (?was ! k)) [0..<length should]
      = map (\<lambda>b. if b then Some 0 else None) should"
    by (rule nth_equalityI) (simp_all add: command_def size_are_stimulating_def)
  then have "snd (decide [] should) = Inr (map (\<lambda>b. if b then Some 0 else None) should)"
    by (simp add: decide_out len)
  ultimately show ?thesis
    by (simp add: prod_eq_iff)
qed

lemma stimulation_duration_decide:
  "stimulation_duration pos self now snapshot =
     (self\<lparr>are_stimulating :=
         fst (decide (are_stimulating self) (condition self (pos now snapshot LEFT) (pos now snapshot RIGHT)))\<rparr>,
      snd (decide (are_stimulating self) (condition self (pos now snapshot LEFT) (pos now snapshot RIGHT))))"
  by (simp add: stimulation_duration_def Let_def split_beta)

text \<open>
  Claim C9. A new engine stores the empty list. On its first call the sizing step turns
  it into a list of \<open>False\<close> of the length of the predicate's output, whatever that
  length is; the call then returns, and the stored list has that length: every channel
  that should stimulate gets the command 0 and its entry set, every other channel gets
  \<^verbatim>\<open>None\<close> and keeps \<open>False\<close>.
\<close>

theorem first_call_sizes_state:
  "are_stimulating (StrideBasedStimulation_init cond) = [] \<and>
   size_are_stimulating (are_stimulating (StrideBasedStimulation_init cond))
       (cond (pos now snapshot LEFT) (pos now snapshot RIGHT))
     = replicate (length (cond (pos now snapshot LEFT) (pos now snapshot RIGHT))) False \<and>
   stimulation_duration pos (StrideBasedStimulation_init cond) now snapshot
     = (\<lparr>condition = cond, are_stimulating = cond (pos now snapshot LEFT) (pos now snapshot RIGHT)\<rparr>,
        Inr (map (\<lambda>b. if b then Some 0 else None) (cond (pos now snapshot LEFT) (pos now snapshot RIGHT)))) \<and>
   length (are_stimulating (fst (stimulation_duration pos (StrideBasedStimulation_init cond) now snapshot)))
     = length (cond (pos now snapshot LEFT) (pos now snapshot RIGHT))"
  by (simp add: stimulation_duration_decide StrideBasedStimulation_init_def decide_first
      size_are_stimulating_def)




text \<open>
  Claim C2 fails as stated. The first tick sizes the stored list to two channels; in
  the second tick the predicate yields one boolean, and the call returns one command
  and no error, with two entries still stored.
\<close>

theorem length_mismatch_tolerated:
  "ticks example_pos (StrideBasedStimulation_init resizing) [(0, ()), (1 / 4, ())]
     = (\<lparr>condition = resizing, are_stimulating = [True, False]\<rparr>,
        [Inr [None, None], Inr [Some 0]])"
  by (simp add: stimulation_duration_decide StrideBasedStimulation_init_def resizing_def
      example_pos_def decide_def size_are_stimulating_def for_channels.simps)

text \<open>
  Claim C2, amended. Once the stored list is non-empty its length never changes. A call
  whose predicate yields more booleans than are stored raises \<^verbatim>\<open>IndexError\<close>, after
  every stored entry has been updated; a call whose predicate yields at most as many
  booleans as are stored returns normally, with one command per boolean.
\<close>

theorem length_mismatch:
  "stimulation_duration pos self now snapshot = (self', res) \<and>
   should = condition self (pos now snapshot LEFT) (pos now snapshot RIGHT) \<and>
   are_stimulating self \<noteq> []
   \<longrightarrow>
     length (are_stimulating self') = length (are_stimulating self) \<and>
     (length (are_stimulating self) < length should \<longrightarrow>
        res = Inl IndexError \<and>
        (\<forall>k. k < length (are_stimulating self) \<longrightarrow> are_stimulating self' ! k = should ! k)) \<and>
     (length should \<le> length (are_stimulating self) \<longrightarrow>
        (\<exists>out. res = Inr out \<and> length out = length should))"
proof (intro impI)
  assume a: "stimulation_duration pos self now snapshot = (self', res) \<and>
   should = condition self (pos now snapshot LEFT) (pos now snapshot RIGHT) \<and>
   are_stimulating self \<noteq> []"
  then have st: "are_stimulating self' = fst (decide (are_stimulating self) should)"
    and res: "res = snd (decide (are_stimulating self) should)"
    and was: "size_are_stimulating (are_stimulating self) should = are_stimulating self"
    by (auto simp: stimulation_duration_decide size_are_stimulating_def)
  have "length (are_stimulating self') = length (are_stimulating self)"
    by (simp add: st decide_length was)
  moreover have "res = Inl IndexError"
    if "length (are_stimulating self) < length should"
    using that by (simp add: res decide_IndexError was)
  moreover have "are_stimulating self' ! k = should ! k"
    if "length (are_stimulating self) < length should" "k < length (are_stimulating self)" for k
    using that by (simp add: st decide_state was)
  moreover have "\<exists>out. res = Inr out \<and> length out = length should"
    if "length should \<le> length (are_stimulating self)"
    using that by (simp add: res decide_out was)
  ultimately show "length (are_stimulating self') = length (are_stimulating self) \<and>
     (length (are_stimulating self) < length should \<longrightarrow>
        res = Inl IndexError \<and>
        (\<forall>k. k < length (are_stimulating self) \<longrightarrow> are_stimulating self' ! k = should ! k)) \<and>
     (length should \<le> length (are_stimulating self) \<longrightarrow>
        (\<exists>out. res = Inr out \<and> length out = length should))"
    by blast
qed

text \<open>
  Claim C2, amended, at concrete inputs: two entries stored, a predicate output of
  length three and one of length one.
\<close>

theorem length_mismatch_witness:
  "resizing (example_pos (3 / 4) () LEFT) (example_pos (3 / 4) () RIGHT) = [True, True, False] \<and>
   snd (stimulation_duration example_pos
          \<lparr>condition = resizing, are_stimulating = [False, False]\<rparr> (3 / 4) ()) = Inl IndexError \<and>
   are_stimulating (fst (stimulation_duration example_pos
          \<lparr>condition = resizing, are_stimulating = [False, False]\<rparr> (3 / 4) ())) ! 0 \<and>
   resizing (example_pos (1 / 4) () LEFT) (example_pos (1 / 4) () RIGHT) = [True] \<and>
   (\<exists>out. snd (stimulation_duration example_pos
          \<lparr>condition = resizing, are_stimulating = [False, False]\<rparr> (1 / 4) ()) = Inr out \<and>
        length out = 1) \<and>
   length (are_stimulating (fst (stimulation_duration example_pos
          \<lparr>condition = resizing, are_stimulating = [False, False]\<rparr> (1 / 4) ()))) = 2"
proof -
  let ?self = "\<lparr>condition = resizing, are_stimulating = [False, False]\<rparr>"
  have long: "resizing (example_pos (3 / 4) () LEFT) (example_pos (3 / 4) () RIGHT) = [True, True, False]"
    and short: "resizing (example_pos (1 / 4) () LEFT) (example_pos (1 / 4) () RIGHT) = [True]"
    by (simp_all add: resizing_def example_pos_def)
  from long length_mismatch
    [of example_pos ?self "3 / 4" "()" "fst (stimulation_duration example_pos ?self (3 / 4) ())"
        "snd (stimulation_duration example_pos ?self (3 / 4) ())" "[True, True, False]"]
  have "snd (stimulation_duration example_pos ?self (3 / 4) ()) = Inl IndexError"
    and "\<forall>k. k < 2 \<longrightarrow> are_stimulating (fst (stimulation_duration example_pos ?self (3 / 4) ())) ! k
            = [True, True, False] ! k"
    by (simp_all add: numeral_2_eq_2)
  moreover from this(2)
  have "are_stimulating (fst (stimulation_duration example_pos ?self (3 / 4) ())) ! 0"
    by simp
  moreover from short length_mismatch
    [of example_pos ?self "1 / 4" "()" "fst (stimulation_duration example_pos ?self (1 / 4) ())"
        "snd (stimulation_duration example_pos ?self (1 / 4) ())" "[True]"]
  have "\<exists>out. snd (stimulation_duration example_pos ?self (1 / 4) ()) = Inr out \<and> length out = 1"
    and "length (are_stimulating (fst (stimulation_duration example_pos ?self (1 / 4) ()))) = 2"
    by (simp_all add: numeral_2_eq_2)
  ultimately show ?thesis using long short by simp
qed


section \<open>Stopping a pending stimulation\<close>

lemma stop_empty:
  "data self = [] \<Longrightarrow>
   stop_undefined_stimulation_duration now self = (self, [''No data to stop''])"
  by (simp add: stop_undefined_stimulation_duration_def)

lemma stop_closed:
  "data self \<noteq> [] \<Longrightarrow> last (data self) = (t, Some d, channels) \<Longrightarrow>
   stop_undefined_stimulation_duration now self = (self, [])"
  by (simp add: stop_undefined_stimulation_duration_def)

lemma stop_open:
  "data self \<noteq> [] \<Longrightarrow> last (data self) = (t, None, channels) \<Longrightarrow>
   stop_undefined_stimulation_duration now self =
     (self\<lparr>data := butlast (data self) @ [(t, Some (total_seconds (now - t)), channels)]\<rparr>, [])"
proof -
  assume ne: "data self \<noteq> []" and l: "last (data self) = (t, None, channels)"
  have "(data self)[length (data self) - 1 := x] = butlast (data self) @ [x]" for x
  proof -
    have "(butlast (data self) @ [last (data self)])[length (butlast (data self)) := x] = butlast (data self) @ [x]"
      by (simp only: list_update_length)
    with ne show ?thesis by simp
  qed
  with ne l show ?thesis
    by (simp add: stop_undefined_stimulation_duration_def Let_def)
qed

lemma stop_cases:
  obtains (no_data) "data self = []"
    | (has_duration) t d channels where "data self \<noteq> []" "last (data self) = (t, Some d, channels)"
    | (pending) t channels where "data self \<noteq> []" "last (data self) = (t, None, channels)"
  by (cases "data self = []"; cases "last (data self)"; cases "fst (snd (last (data self)))") auto

text \<open>
  Claim C8. Calling \<^verbatim>\<open>stop_undefined_stimulation_duration\<close> a second time, at any later
  clock reading, leaves the log as the first call left it: the duration written by the
  first call is kept.
\<close>

theorem stop_idempotent:
  "fst (stop_undefined_stimulation_duration now2
          (fst (stop_undefined_stimulation_duration now1 self)))
     = fst (stop_undefined_stimulation_duration now1 self)"
proof (cases self rule: stop_cases)
  case no_data
  then show ?thesis by (simp add: stop_empty)
next
  case (has_duration t d channels)
  then show ?thesis by (simp add: stop_closed)
next
  case (pending t channels)
  let ?self' = "self\<lparr>data := butlast (data self) @ [(t, Some (total_seconds (now1 - t)), channels)]\<rparr>"
  have "stop_undefined_stimulation_duration now2 ?self' = (?self', [])"
    by (rule stop_closed [where t = t and d = "total_seconds (now1 - t)" and channels = channels]) simp_all
  with pending show ?thesis by (simp add: stop_open)
qed

lemma total_seconds_nonneg: "t \<le> now \<Longrightarrow> 0 \<le> total_seconds (now - t)"
  by (simp add: total_seconds_def)

text \<open>
  Claim C4, amended. The call keeps the origin, the number of entries and every entry
  but the last. On an empty log it changes nothing and sends one warning. When the last
  entry has a duration it changes nothing. When the last entry is pending, the new last
  entry has the same time and the same channels, and its duration is the clock reading
  minus that time, in seconds; this duration is non-negative when the clock reading is
  not earlier than the time of the entry.
\<close>

theorem stop_frame:
  "stop_undefined_stimulation_duration now self = (self', warnings) \<longrightarrow>
     t0 self' = t0 self \<and>
     length (data self') = length (data self) \<and>
     butlast (data self') = butlast (data self) \<and>
     (data self = [] \<longrightarrow> self' = self \<and> warnings = [''No data to stop'']) \<and>
     (\<forall>t d channels. data self \<noteq> [] \<and> last (data self) = (t, Some d, channels) \<longrightarrow>
        self' = self \<and> warnings = []) \<and>
     (\<forall>t channels. data self \<noteq> [] \<and> last (data self) = (t, None, channels) \<longrightarrow>
        last (data self') = (t, Some (total_seconds (now - t)), channels) \<and>
        (t \<le> now \<longrightarrow> 0 \<le> total_seconds (now - t)))"
proof
  assume a: "stop_undefined_stimulation_duration now self = (self', warnings)"
  show "t0 self' = t0 self \<and>
     length (data self') = length (data self) \<and>
     butlast (data self') = butlast (data self) \<and>
     (data self = [] \<longrightarrow> self' = self \<and> warnings = [''No data to stop'']) \<and>
     (\<forall>t d channels. data self \<noteq> [] \<and> last (data self) = (t, Some d, channels) \<longrightarrow>
        self' = self \<and> warnings = []) \<and>
     (\<forall>t channels. data self \<noteq> [] \<and> last (data self) = (t, None, channels) \<longrightarrow>
        last (data self') = (t, Some (total_seconds (now - t)), channels) \<and>
        (t \<le> now \<longrightarrow> 0 \<le> total_seconds (now - t)))"
  proof (cases self rule: stop_cases)
    case no_data
    with a no_data show ?thesis by (auto simp: stop_empty)
  next
    case (has_duration t d channels)
    with a has_duration show ?thesis by (auto simp: stop_closed)
  next
    case (pending t channels)
    with a pending show ?thesis by (auto simp: stop_open total_seconds_nonneg)
  qed
qed

text \<open>
  Claim C4 fails as stated in its last part. \<^verbatim>\<open>datetime.now()\<close> is the wall clock, which
  can be set back, and a log can be loaded with any times: with an entry stamped at
  second 2 and a clock reading of second 1 the duration written is -1.
\<close>

theorem stop_negative_duration:
  "stop_undefined_stimulation_duration 1000000 \<lparr>t0 = 0, data = [(2000000, None, [0])]\<rparr>
     = (\<lparr>t0 = 0, data = [(2000000, Some (- 1), [0])]\<rparr>, [])"
  by (simp add: stop_undefined_stimulation_duration_def total_seconds_def)

text \<open>
  Claim C4, amended, at concrete inputs: a log with a pending last entry, a log whose
  last entry has a duration, and an empty log.
\<close>

theorem stop_frame_witness:
  "(2000000::int) \<le> 3500000 \<and>
   t0 (fst (stop_undefined_stimulation_duration 3500000
        \<lparr>t0 = 0, data = [(1000000, Some (1 / 2), [0]), (2000000, None, [0])]\<rparr>)) = 0 \<and>
   butlast (data (fst (stop_undefined_stimulation_duration 3500000
        \<lparr>t0 = 0, data = [(1000000, Some (1 / 2), [0]), (2000000, None, [0])]\<rparr>)))
     = [(1000000, Some (1 / 2), [0])] \<and>
   last (data (fst (stop_undefined_stimulation_duration 3500000
        \<lparr>t0 = 0, data = [(1000000, Some (1 / 2), [0]), (2000000, None, [0])]\<rparr>)))
     = (2000000, Some (3 / 2), [0]) \<and>
   stop_undefined_stimulation_duration 3500000 \<lparr>t0 = 0, data = [(1000000, Some (1 / 2), [0])]\<rparr>
     = (\<lparr>t0 = 0, data = [(1000000, Some (1 / 2), [0])]\<rparr>, []) \<and>
   stop_undefined_stimulation_duration 3500000 \<lparr>t0 = 0, data = []\<rparr>
     = (\<lparr>t0 = 0, data = []\<rparr>, [''No data to stop''])"
proof -
  let ?pending = "\<lparr>t0 = 0, data = [(1000000, Some (1 / 2), [0::nat]), (2000000, None, [0])]\<rparr>"
  let ?stopped = "\<lparr>t0 = 0, data = [(1000000::int, Some (1 / 2 :: real), [0::nat])]\<rparr>"
  let ?fresh = "\<lparr>t0 = 0, data = [] :: entry list\<rparr>"
  have ts: "total_seconds 1500000 = 3 / 2"
    by (simp add: total_seconds_def)
  have "stop_undefined_stimulation_duration 3500000 ?pending
      = (fst (stop_undefined_stimulation_duration 3500000 ?pending),
         snd (stop_undefined_stimulation_duration 3500000 ?pending))"
    by simp
  note pending = mp [OF stop_frame this]
  have "stop_undefined_stimulation_duration 3500000 ?stopped
      = (fst (stop_undefined_stimulation_duration 3500000 ?stopped),
         snd (stop_undefined_stimulation_duration 3500000 ?stopped))"
    by simp
  note stopped = mp [OF stop_frame this]
  have "stop_undefined_stimulation_duration 3500000 ?fresh
      = (fst (stop_undefined_stimulation_duration 3500000 ?fresh),
         snd (stop_undefined_stimulation_duration 3500000 ?fresh))"
    by simp
  note fresh = mp [OF stop_frame this]
  from pending have "t0 (fst (stop_undefined_stimulation_duration 3500000 ?pending)) = 0"
    and "butlast (data (fst (stop_undefined_stimulation_duration 3500000 ?pending)))
          = [(1000000, Some (1 / 2), [0])]"
    by simp_all
  moreover from pending [THEN conjunct2, THEN conjunct2, THEN conjunct2, THEN conjunct2,
      THEN conjunct2, rule_format, of 2000000 "[0]"]
  have "last (data (fst (stop_undefined_stimulation_duration 3500000 ?pending)))
          = (2000000, Some (3 / 2), [0])"
    by (simp add: ts)
  moreover from stopped [THEN conjunct2, THEN conjunct2, THEN conjunct2, THEN conjunct2,
      THEN conjunct1, rule_format, of 1000000 "1 / 2" "[0]"]
  have "stop_undefined_stimulation_duration 3500000 ?stopped = (?stopped, [])"
    by (simp add: prod_eq_iff)
  moreover from fresh have "stop_undefined_stimulation_duration 3500000 ?fresh
      = (?fresh, [''No data to stop''])"
    by (simp add: prod_eq_iff)
  ultimately show ?thesis
    by simp
qed


section \<open>Sequences of calls, sharing and serialisation\<close>

lemma stop_butlast:
  "butlast (data (fst (stop_undefined_stimulation_duration now self))) = butlast (data self)"
  by (cases self rule: stop_cases) (simp_all add: stop_empty stop_closed stop_open)

lemma add_data:
  "add now duration channels (h, self) = Inr (h', self') \<Longrightarrow>
   \<exists>chans. data self' = data self @ [(now, duration, chans)]"
  by (auto simp: add_def Let_def split: option.splits if_splits)

lemma butlast_closed_add:
  assumes "list_all (\<lambda>e. \<not> is_open e) (butlast (data self))"
    and "\<not> last_is_open self"
    and "add now duration channels (h, self) = Inr (h', self')"
  shows "list_all (\<lambda>e. \<not> is_open e) (butlast (data self'))"
proof -
  from assms(3) obtain chans where "data self' = data self @ [(now, duration, chans)]"
    by (blast dest: add_data)
  then have b: "butlast (data self') = data self"
    by simp
  show ?thesis
  proof (cases "data self = []")
    case True
    with b show ?thesis by simp
  next
    case False
    then have eq: "butlast (data self) @ [last (data self)] = data self"
      by simp
    from False assms(2) have "\<not> is_open (last (data self))"
      by (simp add: last_is_open_def)
    with assms(1) have "list_all (\<lambda>e. \<not> is_open e) (butlast (data self) @ [last (data self)])"
      by simp
    then have "list_all (\<lambda>e. \<not> is_open e) (data self)"
      by (simp only: eq)
    with b show ?thesis by simp
  qed
qed

lemma butlast_closed_apply_call:
  assumes "list_all (\<lambda>e. \<not> is_open e) (butlast (data (snd s)))"
    and "case c of Add now duration channels \<Rightarrow> \<not> last_is_open (snd s) | StopUndefined now \<Rightarrow> True"
  shows "list_all (\<lambda>e. \<not> is_open e) (butlast (data (snd (apply_call s c))))"
proof (cases c)
  case (Add now duration channels)
  show ?thesis
  proof (cases "add now duration channels s")
    case (Inl e)
    with Add assms(1) show ?thesis by simp
  next
    case (Inr s')
    then have "add now duration channels (fst s, snd s) = Inr (fst s', snd s')"
      by simp
    from butlast_closed_add [OF assms(1) _ this] assms(2) Add Inr show ?thesis
      by simp
  qed
next
  case (StopUndefined now)
  with assms(1) show ?thesis by (simp add: stop_butlast)
qed

lemma butlast_closed_run:
  "list_all (\<lambda>e. \<not> is_open e) (butlast (data (snd s))) \<Longrightarrow> stops_before_adding s calls \<Longrightarrow>
   list_all (\<lambda>e. \<not> is_open e) (butlast (data (snd (run s calls))))"
proof (induction calls arbitrary: s)
  case Nil
  then show ?case by (simp add: run_def)
next
  case (Cons c calls)
  from Cons.prems have "list_all (\<lambda>e. \<not> is_open e) (butlast (data (snd (apply_call s c))))"
    by (intro butlast_closed_apply_call) simp_all
  moreover from Cons.prems have "stops_before_adding (apply_call s c) calls"
    by simp
  ultimately have "list_all (\<lambda>e. \<not> is_open e) (butlast (data (snd (run (apply_call s c) calls))))"
    by (rule Cons.IH)
  then show ?case by (simp add: run_def)
qed

lemma butlast_closed_filter:
  assumes "list_all (\<lambda>e. \<not> is_open e) (butlast xs)"
  shows "length (filter is_open xs) \<le> 1"
    and "i < length xs \<Longrightarrow> is_open (xs ! i) \<Longrightarrow> Suc i = length xs"
proof -
  show "length (filter is_open xs) \<le> 1"
  proof (cases "xs = []")
    case True
    then show ?thesis by simp
  next
    case False
    then have "xs = butlast xs @ [last xs]" by simp
    then have "filter is_open xs = filter is_open (butlast xs) @ filter is_open [last xs]"
      by (metis filter_append)
    moreover from assms have "filter is_open (butlast xs) = []"
      by (simp add: filter_empty_conv list_all_iff)
    ultimately show ?thesis by simp
  qed
  show "Suc i = length xs" if "i < length xs" "is_open (xs ! i)"
  proof (rule ccontr)
    assume "Suc i \<noteq> length xs"
    with that(1) have i: "i < length (butlast xs)" by simp
    then have "butlast xs ! i \<in> set (butlast xs)" by (rule nth_mem)
    with assms have "\<not> is_open (butlast xs ! i)" by (simp add: list_all_iff)
    with i that(2) show False by (simp add: nth_butlast)
  qed
qed

text \<open>
  Claim C5, amended. Start from a new log and make any sequence of calls of \<^verbatim>\<open>add\<close> and
  \<^verbatim>\<open>stop_undefined_stimulation_duration\<close> in which \<^verbatim>\<open>add\<close> is never called while the
  last entry is pending. Then at most one entry of the log is pending, and a pending
  entry is the last one.
\<close>

theorem one_pending_entry:
  "stops_before_adding (h, RehastimData_init now) calls \<and>
   run (h, RehastimData_init now) calls = (h', self')
   \<longrightarrow>
     length (filter is_open (data self')) \<le> 1 \<and>
     (\<forall>i. i < length (data self') \<and> is_open (data self' ! i) \<longrightarrow> Suc i = length (data self'))"
proof
  assume a: "stops_before_adding (h, RehastimData_init now) calls \<and>
    run (h, RehastimData_init now) calls = (h', self')"
  have "list_all (\<lambda>e. \<not> is_open e) (butlast (data (snd (h, RehastimData_init now))))"
    by (simp add: RehastimData_init_def)
  with a have "list_all (\<lambda>e. \<not> is_open e) (butlast (data (snd (run (h, RehastimData_init now) calls))))"
    by (intro butlast_closed_run) simp_all
  with a have "list_all (\<lambda>e. \<not> is_open e) (butlast (data self'))"
    by simp
  from butlast_closed_filter [OF this]
  show "length (filter is_open (data self')) \<le> 1 \<and>
     (\<forall>i. i < length (data self') \<and> is_open (data self' ! i) \<longrightarrow> Suc i = length (data self'))"
    by blast
qed

text \<open>
  Claim C5 fails as stated. \<^verbatim>\<open>add\<close> appends without looking at the last entry: two calls
  with duration \<^verbatim>\<open>None\<close> leave two pending entries, the first of which is not the last
  entry and can no longer be stopped.
\<close>

theorem two_pending_entries:
  "run ([], RehastimData_init 0)
     [Add 1000000 None (Some [OwnChannel \<lparr>channel_index = 1, amplitude = 10\<rparr>]),
      Add 2000000 None None]
   = ([\<lparr>channel_index = 1, amplitude = 10\<rparr>],
      \<lparr>t0 = 0, data = [(1000000, None, [0]), (2000000, None, [0])]\<rparr>)"
  by (simp add: run_def add_def RehastimData_init_def has_data_def)

text \<open>
  Claim C5, amended, at a concrete sequence: add pending, stop, add pending.
\<close>

theorem one_pending_entry_witness:
  "stops_before_adding ([], RehastimData_init 0)
     [Add 1000000 None (Some [OwnChannel \<lparr>channel_index = 1, amplitude = 10\<rparr>]),
      StopUndefined 1500000,
      Add 2000000 None None] \<and>
   run ([], RehastimData_init 0)
     [Add 1000000 None (Some [OwnChannel \<lparr>channel_index = 1, amplitude = 10\<rparr>]),
      StopUndefined 1500000,
      Add 2000000 None None]
   = ([\<lparr>channel_index = 1, amplitude = 10\<rparr>],
      \<lparr>t0 = 0, data = [(1000000, Some (1 / 2), [0]), (2000000, None, [0])]\<rparr>) \<and>
   length (filter is_open [(1000000, Some (1 / 2), [0]), (2000000, None, [0])]) \<le> 1"
proof -
  let ?calls = "[Add 1000000 None (Some [OwnChannel \<lparr>channel_index = 1, amplitude = 10\<rparr>]),
      StopUndefined 1500000, Add 2000000 None None]"
  let ?self' = "\<lparr>t0 = 0, data = [(1000000, Some (1 / 2), [0]), (2000000, None, [0])]\<rparr>"
  have d: "stops_before_adding ([], RehastimData_init 0) ?calls"
    by (simp add: add_def RehastimData_init_def has_data_def last_is_open_def is_open_def
        stop_undefined_stimulation_duration_def total_seconds_def)
  have r: "run ([], RehastimData_init 0) ?calls = ([\<lparr>channel_index = 1, amplitude = 10\<rparr>], ?self')"
    by (simp add: run_def add_def RehastimData_init_def has_data_def
        stop_undefined_stimulation_duration_def total_seconds_def)
  from one_pending_entry [of "[]" 0 ?calls "[\<lparr>channel_index = 1, amplitude = 10\<rparr>]" ?self'] d r
  have "length (filter is_open (data ?self')) \<le> 1"
    by blast
  with d r show ?thesis by simp
qed

text \<open>
  Claim C3, at a concrete input. A new log gets one entry with one channel of amplitude
  10, which is copied into the store at address 0. \<^verbatim>\<open>add\<close> with \<^verbatim>\<open>channels=None\<close> then
  appends an entry and allocates nothing: the new entry holds the address of the channel
  of the entry before it. Setting the amplitude of the
  new entry's channel to 99 therefore shows in both entries. The claim asks for a copy
  by value, under which the earlier entry would still read 10.
\<close>

theorem add_without_channels_shares_objects:
  "run ([], RehastimData_init 0)
     [Add 1000000 (Some (1 / 2)) (Some [OwnChannel \<lparr>channel_index = 1, amplitude = 10\<rparr>]),
      Add 2000000 (Some 1) None]
   = ([\<lparr>channel_index = 1, amplitude = 10\<rparr>],
      \<lparr>t0 = 0, data = [(1000000, Some (1 / 2), [0]), (2000000, Some 1, [0])]\<rparr>) \<and>
   contents (set_amplitude [\<lparr>channel_index = 1, amplitude = 10\<rparr>] 0 99)
     \<lparr>t0 = 0, data = [(1000000, Some (1 / 2), [0]), (2000000, Some 1, [0])]\<rparr>
   = (0, [(1000000, Some (1 / 2), [\<lparr>channel_index = 1, amplitude = 99\<rparr>]),
          (2000000, Some 1, [\<lparr>channel_index = 1, amplitude = 99\<rparr>])])"
  by (simp add: run_def add_def RehastimData_init_def has_data_def contents_def set_amplitude_def)

lemma add_without_channels_empty:
  "data self = [] \<Longrightarrow> add now duration None (h, self) = Inl RuntimeError"
  by (simp add: add_def has_data_def)

lemma add_without_channels:
  "data self \<noteq> [] \<Longrightarrow>
   add now duration None (h, self)
     = Inr (h, self\<lparr>data := data self @ [(now, duration, snd (snd (last (data self))))]\<rparr>)"
  by (simp add: add_def has_data_def)

lemma add_with_channels:
  "add now duration (Some cs) (h, self)
     = Inr (h @ map new_channel cs,
            self\<lparr>data := data self @ [(now, duration, [length h..<length h + length cs])]\<rparr>)"
  by (simp add: add_def)

text \<open>
  The branch of \<^verbatim>\<open>add\<close> that is given channels allocates: the channels of the new entry
  are new objects, and assigning to one of them leaves the contents of the log as it
  was before the call.
\<close>

lemma add_with_channels_separate:
  assumes "list_all (\<lambda>e. list_all (\<lambda>r. r < length h) (snd (snd e))) (data self)"
    and "add now duration (Some cs) (h, self) = Inr (h', self')"
    and "r' \<in> set (snd (snd (last (data self'))))"
  shows "contents (set_amplitude h' r' a) self = contents h self"
proof -
  from assms(2) have h': "h' = h @ map new_channel cs"
    and new: "snd (snd (last (data self'))) = [length h..<length h + length cs]"
    by (auto simp: add_with_channels)
  from assms(3) new have "length h \<le> r'"
    by simp
  then have "set_amplitude h' r' a ! r = h ! r" if "r < length h" for r
    using that by (simp add: set_amplitude_def h' nth_append)
  with assms(1) show ?thesis
    by (auto simp: contents_def list_all_iff)
qed

lemma contents_relocate:
  "contents (h2 @ h) (self\<lparr>data := map (relocate (length h2)) (data self)\<rparr>) = contents h self"
  by (simp add: contents_def relocate_def split_def)

text \<open>
  Claim C6. \<^verbatim>\<open>deserialize\<close> of \<^verbatim>\<open>serialized\<close> gives back the log itself: the same origin and
  the same sequence of entries, pending ones included. \<^verbatim>\<open>load\<close> of a file written by
  \<^verbatim>\<open>save\<close> returns a log built of new objects whose contents (origin, and time,
  duration or \<^verbatim>\<open>None\<close>, and channel index and amplitude of every channel of every
  entry, in order) are those of the saved log.
\<close>

theorem serialisation_round_trip:
  "deserialize now (serialized self) = Inr self \<and>
   load now path h2 (save path (h, self) fs)
     = Inr (h2 @ h, self\<lparr>data := map (relocate (length h2)) (data self)\<rparr>) \<and>
   contents (h2 @ h) (self\<lparr>data := map (relocate (length h2)) (data self)\<rparr>) = contents h self"
  by (simp add: deserialize_def serialized_def RehastimData_init_def load_def save_def
      pickle_load_def pickle_dump_def contents_relocate)


section \<open>Reading blocks\<close>

lemma steps_within:
  assumes "0 < (st::int)" and "0 \<le> x" and "k < nat (x div st + 1)"
  shows "int k * st \<le> x"
proof -
  from assms have "int k \<le> x div st"
    by (simp add: nat_less_iff)
  with assms(1) have "int k * st \<le> (x div st) * st"
    by (simp add: mult_right_mono)
  also have "\<dots> \<le> x"
  proof -
    have "(x div st) * st + x mod st = x"
      by simp
    moreover from assms(1) have "0 \<le> x mod st"
      by simp
    ultimately show ?thesis
      by linarith
  qed
  finally show ?thesis .
qed

lemma slice_indices_Inr:
  "step \<noteq> Some 0 \<Longrightarrow> \<exists>a b st. slice_indices n start stop step = Inr (a, b, st)"
  by (cases step) (simp_all add: slice_indices_def Let_def)

lemma slice_indices_bounds:
  assumes "slice_indices n start stop step = Inr (a, b, st)"
  shows "st \<noteq> 0"
    and "0 < st \<Longrightarrow> 0 \<le> a \<and> b \<le> int n"
    and "st < 0 \<Longrightarrow> a < int n \<and> - 1 \<le> b"
  using assms
  by (auto simp: slice_indices_def Let_def split: if_splits option.splits)

lemma slice_in_range:
  assumes "slice_indices n start stop step = Inr (a, b, st)"
    and "k < slice_length a b st"
  shows "0 \<le> a + int k * st \<and> a + int k * st < int n"
proof (cases "0 < st")
  case True
  with assms(2) have ab: "a < b" and k: "k < nat ((b - a - 1) div st + 1)"
    by (auto simp: slice_length_def split: if_splits)
  from steps_within [OF True _ k] ab have "int k * st \<le> b - a - 1"
    by simp
  moreover from True have "0 \<le> int k * st"
    by simp
  ultimately show ?thesis
    using slice_indices_bounds(2) [OF assms(1) True] by linarith
next
  case False
  with slice_indices_bounds(1) [OF assms(1)] have neg: "st < 0"
    by simp
  with assms(2) have ba: "b < a" and k: "k < nat ((a - b - 1) div (- st) + 1)"
    by (auto simp: slice_length_def split: if_splits)
  from neg have "0 < - st" by simp
  from steps_within [OF this _ k] ba have "int k * (- st) \<le> a - b - 1"
    by simp
  moreover from neg have "int k * st \<le> 0"
    by (simp add: mult_nonneg_nonpos)
  ultimately show ?thesis
    using slice_indices_bounds(3) [OF assms(1) neg] by (simp add: algebra_simps)
qed

lemma getitem_whole:
  "xs \<noteq> [] \<Longrightarrow> getitem xs (Slice None None None) = Inr (Blocks xs)"
proof -
  assume "xs \<noteq> []"
  then have "slice_length 0 (int (length xs)) 1 = length xs"
    by (simp add: slice_length_def)
  then show ?thesis
    by (simp add: getitem_def slice_indices_def map_nth)
qed

text \<open>
  The positions a slice selects, counted: \<open>(d + m) div Suc m\<close> is the number of multiples
  of \<open>Suc m\<close> below \<open>d\<close>, and taking every \<open>Suc m\<close>-th element of a list is reading it at
  these multiples.
\<close>

lemma every_count:
  fixes d m :: nat
  shows "(d + m) div Suc m = d div Suc m + (if d mod Suc m = 0 then 0 else 1)"
proof -
  define k where "k = Suc m"
  define q where "q = d div k"
  define r where "r = d mod k"
  have d: "d = q * k + r"
    by (simp add: q_def r_def)
  have r: "r < k"
    by (simp add: r_def k_def)
  have k: "k = m + 1"
    by (simp add: k_def)
  from d have "d + m = (r + m) + q * k"
    by linarith
  then have "(d + m) div k = ((r + m) + q * k) div k"
    by (simp only:)
  also have "\<dots> = q + (r + m) div k"
  proof -
    have "k \<noteq> 0"
      by (simp add: k_def)
    then show ?thesis
      by (rule div_mult_self1)
  qed
  also have "(r + m) div k = (if r = 0 then 0 else 1)"
  proof (cases "r = 0")
    case True
    with k show ?thesis by simp
  next
    case False
    with r k have "(r + m) div k = 1"
      by (intro div_nat_eqI) simp_all
    with False show ?thesis by simp
  qed
  finally show ?thesis
    by (simp add: q_def r_def k_def)
qed

lemma every_count_Suc:
  fixes d m :: nat
  shows "(Suc d + m) div Suc m = Suc (d div Suc m)"
proof -
  have "Suc d + m = d + Suc m"
    by simp
  then show ?thesis
    by (simp only: div_add_self2)
qed

lemma every_within:
  fixes j d m :: nat
  assumes "j < (d + m) div Suc m"
  shows "j * Suc m < d"
proof (cases "d mod Suc m = 0")
  case True
  with assms have "Suc j \<le> d div Suc m"
    by (simp add: every_count)
  then have "Suc j * Suc m \<le> d"
    by (simp only: less_eq_div_iff_mult_less_eq [OF zero_less_Suc])
  moreover have "j * Suc m < Suc j * Suc m"
    by simp
  ultimately show ?thesis by linarith
next
  case False
  with assms have "j \<le> d div Suc m"
    by (simp add: every_count)
  then have "j * Suc m \<le> (d div Suc m) * Suc m"
    by (rule mult_le_mono1)
  moreover have "(d div Suc m) * Suc m + d mod Suc m = d"
    by (rule div_mult_mod_eq)
  ultimately show ?thesis
    using False by linarith
qed

lemma nths_every:
  "nths ys {j. Suc m dvd j} = map (\<lambda>j. ys ! (j * Suc m)) [0..<(length ys + m) div Suc m]"
proof (induction ys rule: rev_induct)
  case Nil
  then show ?case by simp
next
  case (snoc y ys)
  let ?d = "length ys"
  let ?c = "(?d + m) div Suc m"
  have inner: "map (\<lambda>j. (ys @ [y]) ! (j * Suc m)) [0..<?c] = map (\<lambda>j. ys ! (j * Suc m)) [0..<?c]"
    by (rule map_cong) (simp_all add: nth_append every_within del: mult_Suc_right)
  show ?case
  proof (cases "Suc m dvd ?d")
    case True
    then have c: "?c = ?d div Suc m"
      by (simp add: every_count)
    from True have cm: "?c * Suc m = ?d"
      by (simp only: c dvd_div_mult_self)
    have "(length (ys @ [y]) + m) div Suc m = Suc ?c"
      using every_count_Suc [of ?d m] by (simp add: c)
    then have "map (\<lambda>j. (ys @ [y]) ! (j * Suc m)) [0..<(length (ys @ [y]) + m) div Suc m]
        = map (\<lambda>j. (ys @ [y]) ! (j * Suc m)) [0..<?c] @ [(ys @ [y]) ! (?c * Suc m)]"
      by simp
    also have "\<dots> = map (\<lambda>j. ys ! (j * Suc m)) [0..<?c] @ [y]"
      by (simp only: inner cm) simp
    finally show ?thesis
      using True snoc.IH by (simp add: nths_append)
  next
    case False
    then have "?c = Suc (?d div Suc m)"
      by (simp add: every_count mod_eq_0_iff_dvd)
    then have "(length (ys @ [y]) + m) div Suc m = ?c"
      using every_count_Suc [of ?d m] by simp
    then have "map (\<lambda>j. (ys @ [y]) ! (j * Suc m)) [0..<(length (ys @ [y]) + m) div Suc m]
        = map (\<lambda>j. ys ! (j * Suc m)) [0..<?c]"
      by (simp only: inner)
    then show ?thesis
      using False snoc.IH by (simp add: nths_append)
  qed
qed

lemma slice_count:
  "(if 0 < D then nat ((D - 1) div int (Suc m) + 1) else 0) = (nat D + m) div Suc m"
proof (cases "0 < D")
  case False
  then show ?thesis by simp
next
  case True
  have "(D - 1) div int (Suc m) + 1 = (D - 1 + int (Suc m)) div int (Suc m)"
    by (simp only: div_add_self2 [OF of_nat_neq_0])
  also from True have "D - 1 + int (Suc m) = int (nat D + m)"
    by simp
  also have "int (nat D + m) div int (Suc m) = int ((nat D + m) div Suc m)"
    by (simp only: zdiv_int)
  finally show ?thesis
    using True by simp
qed

lemma nth_take_drop:
  assumes "i < length (take c (drop l xs))"
  shows "take c (drop l xs) ! i = xs ! (l + i)"
proof -
  from assms have "i < c" and "i < length xs - l"
    by simp_all
  then have "i < c" and "l \<le> length xs"
    by linarith+
  then show ?thesis by simp
qed

lemma forward_slice:
  assumes "a = int (min lo (length xs))" and "b = int (min hi (length xs))"
    and "st = int (Suc m)"
  shows "map (\<lambda>j. xs ! nat (a + int j * st)) [0..<slice_length a b st]
       = nths (take (hi - lo) (drop lo xs)) {j. Suc m dvd j}"
proof -
  let ?ys = "take (hi - lo) (drop lo xs)"
  have len: "length ?ys = nat (b - a)"
    using assms(1,2) by (auto simp: min_def)
  have "slice_length a b st = (if 0 < b - a then nat ((b - a - 1) div int (Suc m) + 1) else 0)"
    using assms(3) by (simp add: slice_length_def)
  then have count: "slice_length a b st = (length ?ys + m) div Suc m"
    by (simp only: slice_count len)
  have "xs ! nat (a + int j * st) = ?ys ! (j * Suc m)" if "j < (length ?ys + m) div Suc m" for j
  proof -
    from that have j: "j * Suc m < length ?ys"
      by (rule every_within)
    then have "j * Suc m < length xs - lo"
      by (simp del: mult_Suc_right)
    then have "lo < length xs"
      by linarith
    from j have "?ys ! (j * Suc m) = xs ! (lo + j * Suc m)"
      by (rule nth_take_drop)
    moreover from \<open>lo < length xs\<close> assms(1,3) have "nat (a + int j * st) = lo + j * Suc m"
      by (simp add: nat_add_distrib nat_mult_distrib del: mult_Suc_right of_nat_Suc)
    ultimately show ?thesis by simp
  qed
  then have "map (\<lambda>j. xs ! nat (a + int j * st)) [0..<(length ?ys + m) div Suc m]
      = map (\<lambda>j. ?ys ! (j * Suc m)) [0..<(length ?ys + m) div Suc m]"
    by (intro map_cong) simp_all
  then show ?thesis
    by (simp only: count nths_every)
qed

lemma backward_slice:
  assumes "a + 1 = int (min up (length xs))" and "b + 1 = int (min dn (length xs))"
    and "st = - int (Suc m)"
  shows "map (\<lambda>j. xs ! nat (a + int j * st)) [0..<slice_length a b st]
       = nths (rev (take (up - dn) (drop dn xs))) {j. Suc m dvd j}"
proof -
  let ?zs = "take (up - dn) (drop dn xs)"
  let ?ys = "rev ?zs"
  have "a - b = int (min up (length xs)) - int (min dn (length xs))"
    using assms(1,2) by linarith
  then have len: "length ?zs = nat (a - b)"
    by (auto simp: min_def)
  have "slice_length a b st = (if 0 < a - b then nat ((a - b - 1) div int (Suc m) + 1) else 0)"
    using assms(3) by (simp add: slice_length_def add.commute)
  then have count: "slice_length a b st = (length ?ys + m) div Suc m"
    by (simp only: slice_count len length_rev)
  have "xs ! nat (a + int j * st) = ?ys ! (j * Suc m)" if "j < (length ?ys + m) div Suc m" for j
  proof -
    from that have j: "j * Suc m < length ?zs"
      using every_within [of j "length ?zs" m] by simp
    then have "j * Suc m < length xs - dn"
      by (simp del: mult_Suc_right)
    then have dn: "dn < length xs"
      by linarith
    from j have "?ys ! (j * Suc m) = ?zs ! (length ?zs - Suc (j * Suc m))"
      by (rule rev_nth)
    also have "\<dots> = xs ! (dn + (length ?zs - Suc (j * Suc m)))"
    proof (rule nth_take_drop)
      from j show "length ?zs - Suc (j * Suc m) < length ?zs"
        by linarith
    qed
    also have "dn + (length ?zs - Suc (j * Suc m)) = nat (a + int j * st)"
    proof -
      from dn assms(2) have "int dn = b + 1"
        by simp
      moreover from j have "int (length ?zs - Suc (j * Suc m)) = int (length ?zs) - 1 - int (j * Suc m)"
        by linarith
      moreover from j len have "int (length ?zs) = a - b"
        by linarith
      ultimately have "int (dn + (length ?zs - Suc (j * Suc m))) = a - int (j * Suc m)"
        by linarith
      also have "\<dots> = a + int j * st"
        by (simp add: assms(3) del: mult_Suc_right of_nat_Suc)
      finally show ?thesis
        by linarith
    qed
    finally show ?thesis by simp
  qed
  then have "map (\<lambda>j. xs ! nat (a + int j * st)) [0..<(length ?ys + m) div Suc m]
      = map (\<lambda>j. ?ys ! (j * Suc m)) [0..<(length ?ys + m) div Suc m]"
    by (intro map_cong) simp_all
  then show ?thesis
    by (simp only: count nths_every)
qed

lemma getitem_forward:
  assumes "0 < st" and "step = Some st \<or> step = None \<and> st = 1"
  shows "getitem xs (Slice start stop step)
       = Inr (Blocks (nths
           (take ((case stop of None \<Rightarrow> length xs
                   | Some s \<Rightarrow> if s < 0 then length xs - nat (- s) else nat s)
                  - (case start of None \<Rightarrow> 0
                     | Some s \<Rightarrow> if s < 0 then length xs - nat (- s) else nat s))
              (drop (case start of None \<Rightarrow> 0
                     | Some s \<Rightarrow> if s < 0 then length xs - nat (- s) else nat s) xs))
           {j. nat st dvd j}))"
proof -
  let ?lo = "case start of None \<Rightarrow> 0 | Some s \<Rightarrow> if s < 0 then length xs - nat (- s) else nat s"
  let ?hi = "case stop of None \<Rightarrow> length xs
             | Some s \<Rightarrow> if s < 0 then length xs - nat (- s) else nat s"
  define m where "m = nat st - 1"
  with assms(1) have st: "st = int (Suc m)" and k: "nat st = Suc m"
    by simp_all
  define a where "a = (case start of None \<Rightarrow> 0
      | Some s \<Rightarrow> if s < 0 then max (s + int (length xs)) 0 else min s (int (length xs)))"
  define b where "b = (case stop of None \<Rightarrow> int (length xs)
      | Some s \<Rightarrow> if s < 0 then max (s + int (length xs)) 0 else min s (int (length xs)))"
  from assms have "slice_indices (length xs) start stop step = Inr (a, b, st)"
    by (auto simp: slice_indices_def a_def b_def Let_def split: option.splits)
  then have model: "getitem xs (Slice start stop step)
      = Inr (Blocks (map (\<lambda>j. xs ! nat (a + int j * st)) [0..<slice_length a b st]))"
    by (simp add: getitem_def)
  have a: "a = int (min ?lo (length xs))"
    by (cases start) (auto simp: a_def)
  have b: "b = int (min ?hi (length xs))"
    by (cases stop) (auto simp: b_def)
  show ?thesis
    by (simp only: model forward_slice [OF a b st] k)
qed

lemma getitem_backward:
  assumes "st < 0"
  shows "getitem xs (Slice start stop (Some st))
       = Inr (Blocks (nths
           (rev (take ((case start of None \<Rightarrow> length xs
                        | Some s \<Rightarrow> if s < 0 then Suc (length xs) - nat (- s) else Suc (nat s))
                       - (case stop of None \<Rightarrow> 0
                          | Some s \<Rightarrow> if s < 0 then Suc (length xs) - nat (- s) else Suc (nat s)))
                   (drop (case stop of None \<Rightarrow> 0
                          | Some s \<Rightarrow> if s < 0 then Suc (length xs) - nat (- s) else Suc (nat s)) xs)))
           {j. nat (- st) dvd j}))"
proof -
  let ?up = "case start of None \<Rightarrow> length xs
             | Some s \<Rightarrow> if s < 0 then Suc (length xs) - nat (- s) else Suc (nat s)"
  let ?dn = "case stop of None \<Rightarrow> 0
             | Some s \<Rightarrow> if s < 0 then Suc (length xs) - nat (- s) else Suc (nat s)"
  define m where "m = nat (- st) - 1"
  with assms have st: "st = - int (Suc m)" and k: "nat (- st) = Suc m"
    by simp_all
  define a where "a = (case start of None \<Rightarrow> int (length xs) - 1
      | Some s \<Rightarrow> if s < 0 then max (s + int (length xs)) (- 1) else min s (int (length xs) - 1))"
  define b where "b = (case stop of None \<Rightarrow> - 1
      | Some s \<Rightarrow> if s < 0 then max (s + int (length xs)) (- 1) else min s (int (length xs) - 1))"
  from assms have "slice_indices (length xs) start stop (Some st) = Inr (a, b, st)"
    by (auto simp: slice_indices_def a_def b_def Let_def split: option.splits)
  then have model: "getitem xs (Slice start stop (Some st))
      = Inr (Blocks (map (\<lambda>j. xs ! nat (a + int j * st)) [0..<slice_length a b st]))"
    by (simp add: getitem_def)
  have a: "a + 1 = int (min ?up (length xs))"
    by (cases start) (auto simp: a_def)
  have b: "b + 1 = int (min ?dn (length xs))"
    by (cases stop) (auto simp: b_def)
  show ?thesis
    by (simp only: model backward_slice [OF a b st] k)
qed

lemma nths_every_one: "nths ys {j. nat 1 dvd j} = ys"
  by (simp add: nths_all)

text \<open>
  Claim C10. On an empty log \<^verbatim>\<open>sample_block\<close> returns \<^verbatim>\<open>None\<close> for every index and every
  slice. On a non-empty log it returns the stored entry at an integer index within the
  list, counted from the end when negative. For a slice it returns stored entries, in
  terms of the list functions of the library: the whole list for \<^verbatim>\<open>[:]\<close>; the entries
  from position \<open>lo\<close> up to but not including \<open>hi\<close> for \<^verbatim>\<open>[lo:hi]\<close> with non-negative
  bounds; the reversed list for \<^verbatim>\<open>[::-1]\<close>; in general, for a positive step, every
  \<open>st\<close>-th entry of the stretch between the two bounds, and for a negative step every
  \<open>-down\<close>-th entry of the reversed stretch, where a negative bound counts from the end
  of the list and a bound beyond either end stops at that end.
\<close>

theorem sample_block_empty_or_stored:
  "(data self = [] \<longrightarrow> sample_block self idx = Inr None) \<and>
   (data self \<noteq> [] \<and> 0 \<le> i \<and> i < int (length (data self)) \<longrightarrow>
      sample_block self (Index i) = Inr (Some (Block (data self ! nat i)))) \<and>
   (data self \<noteq> [] \<and> - int (length (data self)) \<le> i \<and> i < 0 \<longrightarrow>
      sample_block self (Index i) = Inr (Some (Block (data self ! nat (int (length (data self)) + i))))) \<and>
   (data self \<noteq> [] \<longrightarrow> sample_block self (Slice None None None) = Inr (Some (Blocks (data self)))) \<and>
   (data self \<noteq> [] \<and> 0 \<le> lo \<and> 0 \<le> hi \<longrightarrow>
      sample_block self (Slice (Some lo) (Some hi) None)
        = Inr (Some (Blocks (take (nat hi - nat lo) (drop (nat lo) (data self)))))) \<and>
   (data self \<noteq> [] \<longrightarrow>
      sample_block self (Slice None None (Some (- 1))) = Inr (Some (Blocks (rev (data self))))) \<and>
   (data self \<noteq> [] \<and> 0 < st \<and> (step = Some st \<or> step = None \<and> st = 1) \<longrightarrow>
      sample_block self (Slice start stop step)
        = Inr (Some (Blocks (nths
            (take ((case stop of None \<Rightarrow> length (data self)
                    | Some s \<Rightarrow> if s < 0 then length (data self) - nat (- s) else nat s)
                   - (case start of None \<Rightarrow> 0
                      | Some s \<Rightarrow> if s < 0 then length (data self) - nat (- s) else nat s))
               (drop (case start of None \<Rightarrow> 0
                      | Some s \<Rightarrow> if s < 0 then length (data self) - nat (- s) else nat s)
                  (data self)))
            {j. nat st dvd j})))) \<and>
   (data self \<noteq> [] \<and> down < 0 \<longrightarrow>
      sample_block self (Slice high low (Some down))
        = Inr (Some (Blocks (nths
            (rev (take ((case high of None \<Rightarrow> length (data self)
                         | Some s \<Rightarrow> if s < 0 then Suc (length (data self)) - nat (- s) else Suc (nat s))
                        - (case low of None \<Rightarrow> 0
                           | Some s \<Rightarrow> if s < 0 then Suc (length (data self)) - nat (- s) else Suc (nat s)))
                    (drop (case low of None \<Rightarrow> 0
                           | Some s \<Rightarrow> if s < 0 then Suc (length (data self)) - nat (- s) else Suc (nat s))
                       (data self))))
            {j. nat (- down) dvd j}))))"
proof (intro conjI impI)
  assume "data self = []"
  then show "sample_block self idx = Inr None"
    by (simp add: sample_block_def)
next
  assume "data self \<noteq> [] \<and> 0 \<le> i \<and> i < int (length (data self))"
  then show "sample_block self (Index i) = Inr (Some (Block (data self ! nat i)))"
    by (simp add: sample_block_def getitem_def)
next
  assume "data self \<noteq> [] \<and> - int (length (data self)) \<le> i \<and> i < 0"
  then show "sample_block self (Index i)
      = Inr (Some (Block (data self ! nat (int (length (data self)) + i))))"
    by (simp add: sample_block_def getitem_def add.commute)
next
  assume "data self \<noteq> []"
  then show "sample_block self (Slice None None None) = Inr (Some (Blocks (data self)))"
    by (simp add: sample_block_def getitem_whole)
next
  assume a: "data self \<noteq> [] \<and> 0 \<le> lo \<and> 0 \<le> hi"
  have "getitem (data self) (Slice (Some lo) (Some hi) None)
      = Inr (Blocks (nths (take (nat hi - nat lo) (drop (nat lo) (data self))) {j. nat 1 dvd j}))"
    using a getitem_forward [of 1 None "data self" "Some lo" "Some hi"] by simp
  with a show "sample_block self (Slice (Some lo) (Some hi) None)
      = Inr (Some (Blocks (take (nat hi - nat lo) (drop (nat lo) (data self)))))"
    by (simp only: nths_every_one sample_block_def) simp
next
  assume a: "data self \<noteq> []"
  have "getitem (data self) (Slice None None (Some (- 1)))
      = Inr (Blocks (nths (rev (data self)) {j. nat 1 dvd j}))"
    using getitem_backward [of "- 1" "data self" None None] by simp
  with a show "sample_block self (Slice None None (Some (- 1))) = Inr (Some (Blocks (rev (data self))))"
    by (simp only: nths_every_one sample_block_def) simp
next
  assume a: "data self \<noteq> [] \<and> 0 < st \<and> (step = Some st \<or> step = None \<and> st = 1)"
  then have "0 < st" and "step = Some st \<or> step = None \<and> st = 1"
    by simp_all
  from getitem_forward [OF this, of "data self" start stop] a
  show "sample_block self (Slice start stop step)
        = Inr (Some (Blocks (nths
            (take ((case stop of None \<Rightarrow> length (data self)
                    | Some s \<Rightarrow> if s < 0 then length (data self) - nat (- s) else nat s)
                   - (case start of None \<Rightarrow> 0
                      | Some s \<Rightarrow> if s < 0 then length (data self) - nat (- s) else nat s))
               (drop (case start of None \<Rightarrow> 0
                      | Some s \<Rightarrow> if s < 0 then length (data self) - nat (- s) else nat s)
                  (data self)))
            {j. nat st dvd j})))"
    by (simp add: sample_block_def)
next
  assume a: "data self \<noteq> [] \<and> down < 0"
  then have "down < 0"
    by simp
  from getitem_backward [OF this, of "data self" high low] a
  show "sample_block self (Slice high low (Some down))
        = Inr (Some (Blocks (nths
            (rev (take ((case high of None \<Rightarrow> length (data self)
                         | Some s \<Rightarrow> if s < 0 then Suc (length (data self)) - nat (- s) else Suc (nat s))
                        - (case low of None \<Rightarrow> 0
                           | Some s \<Rightarrow> if s < 0 then Suc (length (data self)) - nat (- s) else Suc (nat s)))
                    (drop (case low of None \<Rightarrow> 0
                           | Some s \<Rightarrow> if s < 0 then Suc (length (data self)) - nat (- s) else Suc (nat s))
                       (data self))))
            {j. nat (- down) dvd j})))"
    by (simp add: sample_block_def)
qed

text \<open>
  Claim C10, at concrete inputs: an empty log, and a log of three entries read at index
  1, at index -1 and by the slices \<^verbatim>\<open>[:]\<close>, \<^verbatim>\<open>[1:10]\<close>, \<^verbatim>\<open>[::-1]\<close>, \<^verbatim>\<open>[:-1:2]\<close> and
  \<^verbatim>\<open>[-1::-2]\<close>.
\<close>

theorem sample_block_empty_or_stored_witness:
  "sample_block \<lparr>t0 = 0, data = []\<rparr> (Index 3) = Inr None \<and>
   sample_block \<lparr>t0 = 0, data = [(1, Some 1, [0]), (2, Some 2, [0]), (3, None, [0])]\<rparr> (Index 1)
     = Inr (Some (Block (2, Some 2, [0]))) \<and>
   sample_block \<lparr>t0 = 0, data = [(1, Some 1, [0]), (2, Some 2, [0]), (3, None, [0])]\<rparr> (Index (- 1))
     = Inr (Some (Block (3, None, [0]))) \<and>
   sample_block \<lparr>t0 = 0, data = [(1, Some 1, [0]), (2, Some 2, [0]), (3, None, [0])]\<rparr>
       (Slice None None None)
     = Inr (Some (Blocks [(1, Some 1, [0]), (2, Some 2, [0]), (3, None, [0])])) \<and>
   sample_block \<lparr>t0 = 0, data = [(1, Some 1, [0]), (2, Some 2, [0]), (3, None, [0])]\<rparr>
       (Slice (Some 1) (Some 10) None)
     = Inr (Some (Blocks [(2, Some 2, [0]), (3, None, [0])])) \<and>
   sample_block \<lparr>t0 = 0, data = [(1, Some 1, [0]), (2, Some 2, [0]), (3, None, [0])]\<rparr>
       (Slice None None (Some (- 1)))
     = Inr (Some (Blocks [(3, None, [0]), (2, Some 2, [0]), (1, Some 1, [0])])) \<and>
   sample_block \<lparr>t0 = 0, data = [(1, Some 1, [0]), (2, Some 2, [0]), (3, None, [0])]\<rparr>
       (Slice None (Some (- 1)) (Some 2))
     = Inr (Some (Blocks [(1, Some 1, [0])])) \<and>
   sample_block \<lparr>t0 = 0, data = [(1, Some 1, [0]), (2, Some 2, [0]), (3, None, [0])]\<rparr>
       (Slice (Some (- 1)) None (Some (- 2)))
     = Inr (Some (Blocks [(3, None, [0]), (1, Some 1, [0])]))"
proof -
  let ?fresh = "\<lparr>t0 = 0, data = [] :: entry list\<rparr>"
  let ?log = "\<lparr>t0 = 0, data = [(1, Some 1, [0]), (2, Some 2, [0]), (3, None, [0::nat])]\<rparr>"
  note fresh = sample_block_empty_or_stored [where self = ?fresh and idx = "Index 3", THEN conjunct1]
  note stored = sample_block_empty_or_stored
    [where self = ?log and i = 1 and lo = 1 and hi = 10 and st = 2 and step = "Some 2"
       and start = None and stop = "Some (- 1)" and down = "- 2" and high = "Some (- 1)"
       and low = None]
  note from_end = sample_block_empty_or_stored
    [where self = ?log and i = "- 1", THEN conjunct2, THEN conjunct2, THEN conjunct1]
  from fresh have "sample_block ?fresh (Index 3) = Inr None"
    by simp
  moreover from stored [THEN conjunct2, THEN conjunct1]
  have "sample_block ?log (Index 1) = Inr (Some (Block (2, Some 2, [0])))"
    by simp
  moreover from from_end have "sample_block ?log (Index (- 1)) = Inr (Some (Block (3, None, [0])))"
    by simp
  moreover from stored [THEN conjunct2, THEN conjunct2, THEN conjunct2, THEN conjunct1]
  have "sample_block ?log (Slice None None None)
      = Inr (Some (Blocks [(1, Some 1, [0]), (2, Some 2, [0]), (3, None, [0])]))"
    by simp
  moreover from stored [THEN conjunct2, THEN conjunct2, THEN conjunct2, THEN conjunct2, THEN conjunct1]
  have "sample_block ?log (Slice (Some 1) (Some 10) None)
      = Inr (Some (Blocks [(2, Some 2, [0]), (3, None, [0])]))"
    by simp
  moreover from stored [THEN conjunct2, THEN conjunct2, THEN conjunct2, THEN conjunct2,
      THEN conjunct2, THEN conjunct1]
  have "sample_block ?log (Slice None None (Some (- 1)))
      = Inr (Some (Blocks [(3, None, [0]), (2, Some 2, [0]), (1, Some 1, [0])]))"
    by simp
  moreover from stored [THEN conjunct2, THEN conjunct2, THEN conjunct2, THEN conjunct2,
      THEN conjunct2, THEN conjunct2, THEN conjunct1]
  have "sample_block ?log (Slice None (Some (- 1)) (Some 2)) = Inr (Some (Blocks [(1, Some 1, [0])]))"
    by (simp add: nths_Cons)
  moreover from stored [THEN conjunct2, THEN conjunct2, THEN conjunct2, THEN conjunct2,
      THEN conjunct2, THEN conjunct2, THEN conjunct2]
  have "sample_block ?log (Slice (Some (- 1)) None (Some (- 2)))
      = Inr (Some (Blocks [(3, None, [0]), (1, Some 1, [0])]))"
    by (simp add: nths_Cons)
  ultimately show ?thesis
    by (intro conjI)
qed


section \<open>Array views\<close>

lemma nth_concat_uniform:
  "list_all (\<lambda>r. length r = m) rows \<Longrightarrow> i < length rows \<Longrightarrow> j < m \<Longrightarrow>
   concat rows ! (i * m + j) = rows ! i ! j"
proof (induction rows arbitrary: i)
  case Nil
  then show ?case by simp
next
  case (Cons r rows)
  show ?case
  proof (cases i)
    case 0
    with Cons.prems show ?thesis by (simp add: nth_append)
  next
    case (Suc i')
    with Cons.prems have "concat rows ! (i' * m + j) = rows ! i' ! j"
      by (intro Cons.IH) simp_all
    moreover from Cons.prems have "length r = m" by simp
    ultimately show ?thesis using Suc
      by (simp add: nth_append add.assoc)
  qed
qed

lemma length_concat_uniform:
  "list_all (\<lambda>r. length r = m) rows \<Longrightarrow> length (concat rows) = length rows * m"
  by (induction rows) simp_all

lemma np_T_shape:
  "shape a = [n, m] \<Longrightarrow> shape (np_T a) = [m, n]"
  by (simp add: np_T_def)

lemma np_T_elems:
  assumes "shape a = [n, m]" and "i < n" and "j < m"
  shows "elems (np_T a) ! (j * n + i) = elems a ! (i * m + j)"
proof -
  let ?rows = "map (\<lambda>j. map (\<lambda>i. elems a ! (i * m + j)) [0..<n]) [0..<m]"
  have "list_all (\<lambda>r. length r = n) ?rows"
    by (simp add: list_all_iff)
  from nth_concat_uniform [OF this, of j i] assms(2,3)
  have "concat ?rows ! (j * n + i) = elems a ! (i * m + j)"
    by simp
  with assms(1) show ?thesis
    by (simp add: np_T_def)
qed

lemma closed_entries_filter:
  "closed_entries xs = filter (\<lambda>e. \<not> is_open e) xs"
  by (simp add: closed_entries_def is_open_def split_def)

lemma np_array2_uniform:
  assumes "rows \<noteq> []" and "list_all (\<lambda>r. length r = m) rows"
  shows "np_array2 rows = Inr \<lparr>shape = [length rows, m], elems = concat rows\<rparr>"
proof -
  from assms have "length (hd rows) = m"
    by (cases rows) simp_all
  with assms show ?thesis
    by (simp add: np_array2_def)
qed

lemma amplitude_as_array_uniform:
  fixes h :: store and self :: RehastimData
  defines "kept \<equiv> filter (\<lambda>e. \<not> is_open e) (data self)"
  assumes "data self \<noteq> []" and "kept \<noteq> []"
    and "list_all (\<lambda>e. length (snd (snd e)) = m) kept"
  shows "\<exists>a. amplitude_as_array h self = Inr a \<and> shape a = [m, length kept] \<and>
           (\<forall>i j. i < length kept \<and> j < m \<longrightarrow>
              elems a ! (j * length kept + i) = amplitude (h ! (snd (snd (kept ! i)) ! j)))"
proof -
  let ?rows = "map (\<lambda>(t, duration, channels). map (\<lambda>r. amplitude (h ! r)) channels) kept"
  let ?a = "\<lparr>shape = [length kept, m], elems = concat ?rows\<rparr>"
  have uniform: "list_all (\<lambda>r. length r = m) ?rows"
    using assms(4) by (simp add: list_all_iff split_def)
  with assms(3) have "np_array2 ?rows = Inr ?a"
    using np_array2_uniform [of ?rows m] by simp
  with assms(2) have res: "amplitude_as_array h self = Inr (np_T ?a)"
    by (simp add: amplitude_as_array_def closed_entries_filter kept_def)
  have sh: "shape ?a = [length kept, m]"
    by simp
  have "elems (np_T ?a) ! (j * length kept + i) = amplitude (h ! (snd (snd (kept ! i)) ! j))"
    if "i < length kept" "j < m" for i j
  proof -
    from that assms(4) have len: "length (snd (snd (kept ! i))) = m"
      by (simp add: list_all_length)
    have "elems (np_T ?a) ! (j * length kept + i) = concat ?rows ! (i * m + j)"
      using np_T_elems [OF sh that] by simp
    also have "\<dots> = ?rows ! i ! j"
      using uniform that by (intro nth_concat_uniform) simp_all
    also have "\<dots> = amplitude (h ! (snd (snd (kept ! i)) ! j))"
      using that len by (simp add: split_def)
    finally show ?thesis .
  qed
  with res np_T_shape [OF sh] show ?thesis
    by blast
qed

text \<open>
  Claim C7. On an empty log the three views are empty arrays and no error: shape (0,)
  for the times and shape (1, 0) for the durations and the amplitudes. On a non-empty
  log the times and the durations are those of the entries with a duration, in the
  order of the log, and nothing else; the amplitudes are an empty array when no entry
  has a duration, and otherwise, when the entries with a duration all have \<open>m\<close>
  channels, an array of shape \<open>m\<close> by the number of those entries, whose element at
  row \<open>j\<close> and column \<open>i\<close> is the amplitude of channel \<open>j\<close> of the \<open>i\<close>-th such entry.
  In particular, for a log of two entries with a duration and two channels each,
  followed by one pending entry, the durations have length 2 and the amplitudes have
  shape 2 by 2.
\<close>

theorem views_keep_closed_entries:
  "(data self = [] \<longrightarrow>
      time self = \<lparr>shape = [0], elems = []\<rparr> \<and>
      duration_as_array self = \<lparr>shape = [1, 0], elems = []\<rparr> \<and>
      amplitude_as_array h self = Inr \<lparr>shape = [1, 0], elems = []\<rparr>) \<and>
   (data self \<noteq> [] \<longrightarrow>
      shape (time self) = [length (filter (\<lambda>e. \<not> is_open e) (data self))] \<and>
      elems (time self)
        = map (\<lambda>e. total_seconds (fst e - t0 self)) (filter (\<lambda>e. \<not> is_open e) (data self)) \<and>
      shape (duration_as_array self) = [length (filter (\<lambda>e. \<not> is_open e) (data self))] \<and>
      map Some (elems (duration_as_array self))
        = map (\<lambda>e. fst (snd e)) (filter (\<lambda>e. \<not> is_open e) (data self))) \<and>
   (data self \<noteq> [] \<and> filter (\<lambda>e. \<not> is_open e) (data self) = [] \<longrightarrow>
      amplitude_as_array h self = Inr \<lparr>shape = [0], elems = []\<rparr>) \<and>
   (data self \<noteq> [] \<and> filter (\<lambda>e. \<not> is_open e) (data self) \<noteq> [] \<and>
    list_all (\<lambda>e. length (snd (snd e)) = m) (filter (\<lambda>e. \<not> is_open e) (data self)) \<longrightarrow>
      (\<exists>a. amplitude_as_array h self = Inr a \<and>
         shape a = [m, length (filter (\<lambda>e. \<not> is_open e) (data self))] \<and>
         (\<forall>i j. i < length (filter (\<lambda>e. \<not> is_open e) (data self)) \<and> j < m \<longrightarrow>
            elems a ! (j * length (filter (\<lambda>e. \<not> is_open e) (data self)) + i)
              = amplitude (h ! (snd (snd (filter (\<lambda>e. \<not> is_open e) (data self) ! i)) ! j))))) \<and>
   (data self = [(ta, Some da, [a_left, a_right]), (tb, Some db, [b_left, b_right]), (tc, None, cs)] \<longrightarrow>
      time self = \<lparr>shape = [2], elems = [total_seconds (ta - t0 self), total_seconds (tb - t0 self)]\<rparr> \<and>
      duration_as_array self = \<lparr>shape = [2], elems = [da, db]\<rparr> \<and>
      amplitude_as_array h self
        = Inr \<lparr>shape = [2, 2],
               elems = [amplitude (h ! a_left), amplitude (h ! b_left), amplitude (h ! a_right), amplitude (h ! b_right)]\<rparr>)"
proof (intro conjI impI)
  assume "data self = []"
  then show "time self = \<lparr>shape = [0], elems = []\<rparr>"
    and "duration_as_array self = \<lparr>shape = [1, 0], elems = []\<rparr>"
    and "amplitude_as_array h self = Inr \<lparr>shape = [1, 0], elems = []\<rparr>"
    by (simp_all add: time_def duration_as_array_def amplitude_as_array_def np_array_def)
next
  assume ne: "data self \<noteq> []"
  then show "shape (time self) = [length (filter (\<lambda>e. \<not> is_open e) (data self))]"
    and "elems (time self)
        = map (\<lambda>e. total_seconds (fst e - t0 self)) (filter (\<lambda>e. \<not> is_open e) (data self))"
    and "shape (duration_as_array self) = [length (filter (\<lambda>e. \<not> is_open e) (data self))]"
    by (simp_all add: time_def duration_as_array_def np_array_def closed_entries_filter split_def)
  have "map Some (map (\<lambda>(t, duration, channels). the duration) (filter (\<lambda>e. \<not> is_open e) xs))
      = map (\<lambda>e. fst (snd e)) (filter (\<lambda>e. \<not> is_open e) xs)" for xs :: "entry list"
    by (induction xs) (auto simp: is_open_def)
  with ne show "map Some (elems (duration_as_array self))
        = map (\<lambda>e. fst (snd e)) (filter (\<lambda>e. \<not> is_open e) (data self))"
    by (simp add: duration_as_array_def np_array_def closed_entries_filter)
next
  assume "data self \<noteq> [] \<and> filter (\<lambda>e. \<not> is_open e) (data self) = []"
  then show "amplitude_as_array h self = Inr \<lparr>shape = [0], elems = []\<rparr>"
    by (simp add: amplitude_as_array_def closed_entries_filter np_array2_def np_T_def)
next
  assume "data self \<noteq> [] \<and> filter (\<lambda>e. \<not> is_open e) (data self) \<noteq> [] \<and>
    list_all (\<lambda>e. length (snd (snd e)) = m) (filter (\<lambda>e. \<not> is_open e) (data self))"
  then show "\<exists>a. amplitude_as_array h self = Inr a \<and>
         shape a = [m, length (filter (\<lambda>e. \<not> is_open e) (data self))] \<and>
         (\<forall>i j. i < length (filter (\<lambda>e. \<not> is_open e) (data self)) \<and> j < m \<longrightarrow>
            elems a ! (j * length (filter (\<lambda>e. \<not> is_open e) (data self)) + i)
              = amplitude (h ! (snd (snd (filter (\<lambda>e. \<not> is_open e) (data self) ! i)) ! j)))"
    by (intro amplitude_as_array_uniform) simp_all
next
  assume d: "data self = [(ta, Some da, [a_left, a_right]), (tb, Some db, [b_left, b_right]), (tc, None, cs)]"
  then show "time self
      = \<lparr>shape = [2], elems = [total_seconds (ta - t0 self), total_seconds (tb - t0 self)]\<rparr>"
    and "duration_as_array self = \<lparr>shape = [2], elems = [da, db]\<rparr>"
    by (simp_all add: time_def duration_as_array_def np_array_def closed_entries_def)
  have "[0..<2] = [0, 1]"
    by (simp add: upt_rec numeral_2_eq_2)
  with d show "amplitude_as_array h self
        = Inr \<lparr>shape = [2, 2],
               elems = [amplitude (h ! a_left), amplitude (h ! b_left), amplitude (h ! a_right), amplitude (h ! b_right)]\<rparr>"
    by (simp add: amplitude_as_array_def closed_entries_def np_array2_def np_T_def)
qed

text \<open>
  Claim C7, at concrete inputs: a new log, a log with a single pending entry, and the
  example log (durations 0.5 and 0.3, two channels each, one pending entry).
\<close>

theorem views_keep_closed_entries_witness:
  "time (RehastimData_init 0) = \<lparr>shape = [0], elems = []\<rparr> \<and>
   duration_as_array (RehastimData_init 0) = \<lparr>shape = [1, 0], elems = []\<rparr> \<and>
   amplitude_as_array example_store (RehastimData_init 0) = Inr \<lparr>shape = [1, 0], elems = []\<rparr> \<and>
   amplitude_as_array example_store \<lparr>t0 = 0, data = [(3000000, None, [2, 3])]\<rparr>
     = Inr \<lparr>shape = [0], elems = []\<rparr> \<and>
   time example_log = \<lparr>shape = [2], elems = [1, 2]\<rparr> \<and>
   duration_as_array example_log = \<lparr>shape = [2], elems = [1 / 2, 3 / 10]\<rparr> \<and>
   amplitude_as_array example_store example_log = Inr \<lparr>shape = [2, 2], elems = [10, 30, 20, 40]\<rparr> \<and>
   (\<exists>a. amplitude_as_array example_store example_log = Inr a \<and> shape a = [2, 2] \<and>
        elems a ! (1 * 2 + 0) = amplitude (example_store ! 1))"
proof -
  let ?pending = "\<lparr>t0 = 0, data = [(3000000, None, [2, 3])]\<rparr>"
  note fresh = views_keep_closed_entries
    [where self = "RehastimData_init 0" and h = example_store, THEN conjunct1]
  note pending = views_keep_closed_entries
    [where self = ?pending and h = example_store, THEN conjunct2, THEN conjunct2, THEN conjunct1]
  note uniform = views_keep_closed_entries
    [where self = example_log and h = example_store and m = 2,
      THEN conjunct2, THEN conjunct2, THEN conjunct2, THEN conjunct1]
  note scenario = views_keep_closed_entries
    [where self = example_log and h = example_store and ta = 1000000 and da = "1 / 2" and a_left = 0
      and a_right = 1 and tb = 2000000 and db = "3 / 10" and b_left = 2 and b_right = 3 and tc = 3000000
      and cs = "[2, 3]",
      THEN conjunct2, THEN conjunct2, THEN conjunct2, THEN conjunct2]
  have kept: "filter (\<lambda>e. \<not> is_open e) (data example_log)
      = [(1000000, Some (1 / 2), [0, 1]), (2000000, Some (3 / 10), [2, 3])]"
    by (simp add: example_log_def is_open_def del: not_None_eq)
  from fresh have "time (RehastimData_init 0) = \<lparr>shape = [0], elems = []\<rparr>"
    and "duration_as_array (RehastimData_init 0) = \<lparr>shape = [1, 0], elems = []\<rparr>"
    and "amplitude_as_array example_store (RehastimData_init 0) = Inr \<lparr>shape = [1, 0], elems = []\<rparr>"
    by (simp_all add: RehastimData_init_def)
  moreover from pending have "amplitude_as_array example_store ?pending = Inr \<lparr>shape = [0], elems = []\<rparr>"
    by (simp add: is_open_def)
  moreover from scenario have "time example_log = \<lparr>shape = [2], elems = [1, 2]\<rparr>"
    and "duration_as_array example_log = \<lparr>shape = [2], elems = [1 / 2, 3 / 10]\<rparr>"
    and "amplitude_as_array example_store example_log
      = Inr \<lparr>shape = [2, 2], elems = [10, 30, 20, 40]\<rparr>"
    by (simp_all add: example_log_def example_store_def total_seconds_def)
  moreover from uniform have "\<exists>a. amplitude_as_array example_store example_log = Inr a \<and>
      shape a = [2, 2] \<and> elems a ! (1 * 2 + 0) = amplitude (example_store ! 1)"
  proof -
    have pre: "data example_log \<noteq> [] \<and> filter (\<lambda>e. \<not> is_open e) (data example_log) \<noteq> [] \<and>
      list_all (\<lambda>e. length (snd (snd e)) = 2) (filter (\<lambda>e. \<not> is_open e) (data example_log))"
      by (simp add: kept) (simp add: example_log_def)
    from mp [OF uniform pre] obtain a where a: "amplitude_as_array example_store example_log = Inr a"
      "shape a = [2, length (filter (\<lambda>e. \<not> is_open e) (data example_log))]"
      "\<forall>i j. i < length (filter (\<lambda>e. \<not> is_open e) (data example_log)) \<and> j < 2 \<longrightarrow>
         elems a ! (j * length (filter (\<lambda>e. \<not> is_open e) (data example_log)) + i)
           = amplitude (example_store ! (snd (snd (filter (\<lambda>e. \<not> is_open e) (data example_log) ! i)) ! j))"
      by blast
    from a(3) [rule_format, of 0 1] have "elems a ! (1 * 2 + 0) = amplitude (example_store ! 1)"
      by (simp add: kept numeral_2_eq_2)
    with a(1,2) show ?thesis
      by (simp add: kept numeral_2_eq_2)
  qed
  ultimately show ?thesis
    by (intro conjI)
qed

end
